theory Spec2Isabelle
  imports Complex_Main "HOL-Library.Product_Lexorder" "HOL-Library.Option_ord"
begin


section \<open>The ledger store\<close>

text \<open>
  The tables of \<^verbatim>\<open>create_schema.py\<close> that the daily-application engine of
  \<^verbatim>\<open>apply_daily_dosage.py\<close> reads and writes. A table is the list of its rows.
  Quantities are exact reals: the engine computes with Python floats and SQLite REAL
  values, whose rounding is not part of the model.

  Columns the engine never reads or writes are left out of the rows
  (\<^verbatim>\<open>batches.last_updated\<close>, which a trigger stamps with the clock,
  \<^verbatim>\<open>daily_dosage.daily_dosage\<close>, every column of \<^verbatim>\<open>medicines\<close> but its key, and
  the rowid \<^verbatim>\<open>stock_moves.id\<close>: a movement's place in the list is its insertion order).
\<close>

datatype error = IntegrityError

text \<open>
  A movement's note. \<open>Needed r d\<close> stands for the text
  \<^verbatim>\<open>f"Needed {r} more units on {d}"\<close>, kept unformatted so that the unmet quantity
  can be read back.
\<close>

datatype move_note = Text string | Needed real string

record batch =
  batch_id :: int
  medicine_id :: string
  batch_no :: string
  stock_units :: real
  expiry_date :: "string option"

record dosage =
  dd_medicine_id :: string
  before_bf :: "real option"
  after_bf :: "real option"
  at_8pm :: "real option"
  after_dinner :: "real option"

record stock_move =
  ts :: string
  sm_medicine_id :: string
  sm_batch_id :: "int option"
  qty_change :: real
  reason :: string
  sm_note :: "move_note option"

record database =
  medicines :: "string list"
  batches :: "batch list"
  daily_dosage :: "dosage list"
  stock_moves :: "stock_move list"

subsection \<open>Constraints of the schema\<close>

text \<open>\<^verbatim>\<open>batch_id INTEGER PRIMARY KEY\<close>.\<close>

definition pk_batches :: "database \<Rightarrow> bool" where
  "pk_batches db = distinct (map batch_id (batches db))"

text \<open>\<^verbatim>\<open>daily_dosage.medicine_id TEXT PRIMARY KEY\<close>.\<close>

definition pk_daily_dosage :: "database \<Rightarrow> bool" where
  "pk_daily_dosage db = distinct (map dd_medicine_id (daily_dosage db))"

text \<open>\<^verbatim>\<open>CHECK (stock_units >= 0)\<close>.\<close>

definition check_stock :: "database \<Rightarrow> bool" where
  "check_stock db = list_all (\<lambda>b. 0 \<le> stock_units b) (batches db)"

text \<open>\<^verbatim>\<open>FOREIGN KEY (medicine_id) REFERENCES medicines(id)\<close> of \<^verbatim>\<open>batches\<close>.\<close>

definition fk_batches :: "database \<Rightarrow> bool" where
  "fk_batches db = list_all (\<lambda>b. medicine_id b \<in> set (medicines db)) (batches db)"

text \<open>\<^verbatim>\<open>FOREIGN KEY (medicine_id) REFERENCES medicines(id)\<close> of \<^verbatim>\<open>daily_dosage\<close>.\<close>

definition fk_daily_dosage :: "database \<Rightarrow> bool" where
  "fk_daily_dosage db = list_all (\<lambda>d. dd_medicine_id d \<in> set (medicines db)) (daily_dosage db)"

subsection \<open>SQL values\<close>

text \<open>
  SQLite's \<^verbatim>\<open>date()\<close> is a parameter \<open>date\<close> of the model: it maps a text to a
  calendar date, or to NULL (\<open>None\<close>) when the text is no date. Its results are compared
  in a linear order. A comparison with NULL is NULL, which a \<^verbatim>\<open>WHERE\<close> clause
  treats as false.
\<close>

definition sql_lt :: "'d::linorder option \<Rightarrow> 'd option \<Rightarrow> bool" where
  "sql_lt a b = (case a of None \<Rightarrow> False | Some x \<Rightarrow> (case b of None \<Rightarrow> False | Some y \<Rightarrow> x < y))"

definition sql_ge :: "'d::linorder option \<Rightarrow> 'd option \<Rightarrow> bool" where
  "sql_ge a b = (case a of None \<Rightarrow> False | Some x \<Rightarrow> (case b of None \<Rightarrow> False | Some y \<Rightarrow> y \<le> x))"

definition sql_eq :: "'d option \<Rightarrow> 'd option \<Rightarrow> bool" where
  "sql_eq a b = (case a of None \<Rightarrow> False | Some x \<Rightarrow> (case b of None \<Rightarrow> False | Some y \<Rightarrow> x = y))"

text \<open>\<^verbatim>\<open>date(expiry_date)\<close> of a batch; NULL for a NULL column.\<close>

definition expiry :: "(string \<Rightarrow> 'd option) \<Rightarrow> batch \<Rightarrow> 'd option" where
  "expiry date b = (case expiry_date b of None \<Rightarrow> None | Some e \<Rightarrow> date e)"

definition coalesce :: "real option \<Rightarrow> real" where
  "coalesce v = (case v of None \<Rightarrow> 0 | Some x \<Rightarrow> x)"

subsection \<open>Statements\<close>

text \<open>
  \<^verbatim>\<open>INSERT INTO stock_moves (ts, medicine_id, batch_id, qty_change, reason, note)\<close>
  of one row. The connection runs with \<^verbatim>\<open>PRAGMA foreign_keys = ON\<close>, so the row's
  \<^verbatim>\<open>medicine_id\<close> must be a key of \<^verbatim>\<open>medicines\<close> and its \<^verbatim>\<open>batch_id\<close>, when not NULL,
  a key of \<^verbatim>\<open>batches\<close>; otherwise the statement raises \<^verbatim>\<open>sqlite3.IntegrityError\<close>.
\<close>

definition insert_move :: "database \<Rightarrow> stock_move \<Rightarrow> error + database" where
  "insert_move db m =
     (if sm_medicine_id m \<in> set (medicines db)
         \<and> (case sm_batch_id m of None \<Rightarrow> True | Some i \<Rightarrow> i \<in> set (map batch_id (batches db)))
      then Inr (db\<lparr>stock_moves := stock_moves db @ [m]\<rparr>)
      else Inl IntegrityError)"

text \<open>
  \<^verbatim>\<open>UPDATE batches SET stock_units = stock_units - ? WHERE batch_id = ?\<close>;
  the \<^verbatim>\<open>CHECK (stock_units >= 0)\<close> of the table raises \<^verbatim>\<open>sqlite3.IntegrityError\<close>.
\<close>

definition update_stock :: "database \<Rightarrow> real \<Rightarrow> int \<Rightarrow> error + database" where
  "update_stock db taken bid =
     (if list_all (\<lambda>b. batch_id b = bid \<longrightarrow> 0 \<le> stock_units b - taken) (batches db)
      then Inr (db\<lparr>batches :=
                 map (\<lambda>b. if batch_id b = bid then b\<lparr>stock_units := stock_units b - taken\<rparr> else b)
                     (batches db)\<rparr>)
      else Inl IntegrityError)"

section \<open>The daily-application engine\<close>

definition log_ts :: "string \<Rightarrow> string" where
  "log_ts run_date = run_date @ '' 20:00:00''"

definition already_ran_for :: "(string \<Rightarrow> 'd option) \<Rightarrow> database \<Rightarrow> string \<Rightarrow> bool" where
  "already_ran_for date db run_date =
     list_ex (\<lambda>m. reason m = ''daily_dose'' \<and> sql_eq (date (ts m)) (date run_date)) (stock_moves db)"

subsection \<open>Expiry reclamation\<close>

text \<open>The rows of the temporary table \<^verbatim>\<open>_to_scrap\<close>: (batch_id, medicine_id, qty).\<close>

definition to_scrap ::
  "(string \<Rightarrow> 'd::linorder option) \<Rightarrow> string \<Rightarrow> database \<Rightarrow> (int \<times> string \<times> real) list" where
  "to_scrap date run_date db =
     map (\<lambda>b. (batch_id b, medicine_id b, stock_units b))
         (filter (\<lambda>b. 0 < stock_units b \<and> expiry_date b \<noteq> None
                       \<and> sql_lt (expiry date b) (date run_date))
                 (batches db))"

text \<open>
  \<^verbatim>\<open>INSERT INTO stock_moves ... SELECT ... FROM _to_scrap WHERE qty > 0\<close>: one row
  after the other; the first row that breaks a foreign key fails the statement.
\<close>

fun insert_expired :: "string \<Rightarrow> (int \<times> string \<times> real) list \<Rightarrow> database \<Rightarrow> error + database" where
  "insert_expired run_date [] db = Inr db"
| "insert_expired run_date ((bid, med, qty) # rows) db =
     (if 0 < qty
      then (case insert_move db
                   \<lparr>ts = log_ts run_date, sm_medicine_id = med, sm_batch_id = Some bid,
                    qty_change = - qty, reason = ''expired'',
                    sm_note = Some (Text (''Auto-scrap expired before '' @ run_date))\<rparr> of
              Inl e \<Rightarrow> Inl e
            | Inr db' \<Rightarrow> insert_expired run_date rows db')
      else insert_expired run_date rows db)"

definition scrap_expired ::
  "(string \<Rightarrow> 'd::linorder option) \<Rightarrow> string \<Rightarrow> database \<Rightarrow> error + database" where
  "scrap_expired date run_date db =
     (let scrap = to_scrap date run_date db;
          db1 = db\<lparr>batches :=
                  map (\<lambda>b. if batch_id b \<in> set (map fst scrap) then b\<lparr>stock_units := 0\<rparr> else b)
                      (batches db)\<rparr>
      in insert_expired run_date scrap db1)"

subsection \<open>FEFO allocation\<close>

text \<open>The view \<^verbatim>\<open>v_daily_units\<close>.\<close>

definition units_per_day :: "dosage \<Rightarrow> real" where
  "units_per_day d =
     coalesce (before_bf d) + coalesce (after_bf d) + coalesce (at_8pm d) + coalesce (after_dinner d)"

definition v_daily_units :: "database \<Rightarrow> (string \<times> real) list" where
  "v_daily_units db = map (\<lambda>d. (dd_medicine_id d, units_per_day d)) (daily_dosage db)"

definition plan :: "database \<Rightarrow> (string \<times> real) list" where
  "plan db = filter (\<lambda>(med_id, need). 0 < need) (v_daily_units db)"

text \<open>
  \<^verbatim>\<open>ORDER BY (expiry_date IS NULL) ASC, date(expiry_date) ASC, batch_id ASC\<close>:
  the three sort terms as one key, ordered lexicographically; NULL sorts before every date.
\<close>

definition fefo_key :: "(string \<Rightarrow> 'd option) \<Rightarrow> batch \<Rightarrow> bool \<times> 'd option \<times> int" where
  "fefo_key date b = (expiry_date b = None, expiry date b, batch_id b)"

definition eligible :: "(string \<Rightarrow> 'd::linorder option) \<Rightarrow> string \<Rightarrow> string \<Rightarrow> batch \<Rightarrow> bool" where
  "eligible date run_date med_id b =
     (medicine_id b = med_id \<and> 0 < stock_units b
      \<and> (expiry_date b = None \<or> sql_ge (expiry date b) (date run_date)))"

definition fefo_batches ::
  "(string \<Rightarrow> 'd::linorder option) \<Rightarrow> string \<Rightarrow> string \<Rightarrow> database \<Rightarrow> batch list" where
  "fefo_batches date run_date med_id db =
     sort_key (fefo_key date) (filter (eligible date run_date med_id) (batches db))"

definition candidates ::
  "(string \<Rightarrow> 'd::linorder option) \<Rightarrow> string \<Rightarrow> string \<Rightarrow> database \<Rightarrow> (int \<times> real) list" where
  "candidates date run_date med_id db =
     map (\<lambda>b. (batch_id b, stock_units b)) (fefo_batches date run_date med_id db)"

text \<open>The inner loop over the fetched rows, with \<^verbatim>\<open>break\<close> and \<^verbatim>\<open>continue\<close>.\<close>

fun deduct_rows ::
  "string \<Rightarrow> string \<Rightarrow> (int \<times> real) list \<Rightarrow> database \<Rightarrow> real \<Rightarrow> error + (database \<times> real)" where
  "deduct_rows run_date med_id [] db remaining = Inr (db, remaining)"
| "deduct_rows run_date med_id ((bid, stock) # rows) db remaining =
     (if remaining \<le> 0 then Inr (db, remaining)
      else let taken = min stock remaining in
        if taken \<le> 0 then deduct_rows run_date med_id rows db remaining
        else (case update_stock db taken bid of
                Inl e \<Rightarrow> Inl e
              | Inr db1 \<Rightarrow>
                  (case insert_move db1
                          \<lparr>ts = log_ts run_date, sm_medicine_id = med_id, sm_batch_id = Some bid,
                           qty_change = - taken, reason = ''daily_dose'',
                           sm_note = Some (Text (''FEFO daily deduction '' @ run_date))\<rparr> of
                     Inl e \<Rightarrow> Inl e
                   | Inr db2 \<Rightarrow> deduct_rows run_date med_id rows db2 (remaining - taken))))"

text \<open>One turn of the outer loop: the item \<open>med_id\<close> with its need.\<close>

definition deduct_item ::
  "(string \<Rightarrow> 'd::linorder option) \<Rightarrow> string \<Rightarrow> string \<Rightarrow> real \<Rightarrow> database \<Rightarrow> error + database" where
  "deduct_item date run_date med_id need db =
     (case deduct_rows run_date med_id (candidates date run_date med_id db) db need of
        Inl e \<Rightarrow> Inl e
      | Inr (db1, remaining) \<Rightarrow>
          if 1 / 1000000 < remaining
          then insert_move db1
                 \<lparr>ts = log_ts run_date, sm_medicine_id = med_id, sm_batch_id = None,
                  qty_change = 0, reason = ''shortfall'',
                  sm_note = Some (Needed remaining run_date)\<rparr>
          else Inr db1)"

fun deduct_plan ::
  "(string \<Rightarrow> 'd::linorder option) \<Rightarrow> string \<Rightarrow> (string \<times> real) list \<Rightarrow> database \<Rightarrow> error + database" where
  "deduct_plan date run_date [] db = Inr db"
| "deduct_plan date run_date ((med_id, need) # rest) db =
     (case deduct_item date run_date med_id need db of
        Inl e \<Rightarrow> Inl e
      | Inr db' \<Rightarrow> deduct_plan date run_date rest db')"

definition fefo_deduct ::
  "(string \<Rightarrow> 'd::linorder option) \<Rightarrow> string \<Rightarrow> database \<Rightarrow> error + database" where
  "fefo_deduct date run_date db =
     (if plan db = [] then Inr db else deduct_plan date run_date (plan db) db)"

subsection \<open>The run\<close>

text \<open>
  \<^verbatim>\<open>main\<close> after its argument parsing: \<open>force\<close> is \<^verbatim>\<open>--force\<close> and \<open>run_date\<close>
  is \<^verbatim>\<open>--date\<close> or today's date. The body runs inside
  \<^verbatim>\<open>with sqlite3.connect(DB) as conn\<close>: all its inserts and updates of the ledger
  belong to one transaction, committed at the end and rolled back by the connection's
  context manager when an exception leaves the block. The result pairs the outcome with
  the database the run leaves behind.
\<close>

datatype outcome = Skipped | Committed | Failed error

definition main ::
  "(string \<Rightarrow> 'd::linorder option) \<Rightarrow> bool \<Rightarrow> string \<Rightarrow> database \<Rightarrow> outcome \<times> database" where
  "main date force run_date db =
     (if already_ran_for date db run_date \<and> \<not> force then (Skipped, db)
      else (case scrap_expired date run_date db of
              Inl e \<Rightarrow> (Failed e, db)
            | Inr db1 \<Rightarrow>
                (case fefo_deduct date run_date db1 of
                   Inl e \<Rightarrow> (Failed e, db)
                 | Inr db2 \<Rightarrow> (Committed, db2))))"

section \<open>Observations on a run\<close>

text \<open>The movements a step has appended, given the database before and after it.\<close>

definition appended :: "database \<Rightarrow> database \<Rightarrow> stock_move list" where
  "appended db db' = drop (length (stock_moves db)) (stock_moves db')"

text \<open>The movement that reclamation logs for a row of \<^verbatim>\<open>_to_scrap\<close>.\<close>

definition expired_move :: "string \<Rightarrow> int \<times> string \<times> real \<Rightarrow> stock_move" where
  "expired_move run_date row =
     (case row of (bid, med, qty) \<Rightarrow>
       \<lparr>ts = log_ts run_date, sm_medicine_id = med, sm_batch_id = Some bid,
        qty_change = - qty, reason = ''expired'',
        sm_note = Some (Text (''Auto-scrap expired before '' @ run_date))\<rparr>)"

text \<open>The database after a reclamation whose inserts all pass.\<close>

definition scrapped :: "(string \<Rightarrow> 'd::linorder option) \<Rightarrow> string \<Rightarrow> database \<Rightarrow> database" where
  "scrapped date run_date db =
     db\<lparr>batches :=
          map (\<lambda>b. if batch_id b \<in> set (map fst (to_scrap date run_date db))
                    then b\<lparr>stock_units := 0\<rparr> else b) (batches db),
        stock_moves := stock_moves db @ map (expired_move run_date) (to_scrap date run_date db)\<rparr>"

text \<open>The movement that allocation logs for a deduction (batch_id, taken).\<close>

definition dose_move :: "string \<Rightarrow> string \<Rightarrow> int \<times> real \<Rightarrow> stock_move" where
  "dose_move run_date med_id row =
     (case row of (bid, taken) \<Rightarrow>
       \<lparr>ts = log_ts run_date, sm_medicine_id = med_id, sm_batch_id = Some bid,
        qty_change = - taken, reason = ''daily_dose'',
        sm_note = Some (Text (''FEFO daily deduction '' @ run_date))\<rparr>)"

text \<open>The movement that allocation logs for an unmet remainder.\<close>

definition shortfall_move :: "string \<Rightarrow> string \<Rightarrow> real \<Rightarrow> stock_move" where
  "shortfall_move run_date med_id remaining =
     \<lparr>ts = log_ts run_date, sm_medicine_id = med_id, sm_batch_id = None,
      qty_change = 0, reason = ''shortfall'',
      sm_note = Some (Needed remaining run_date)\<rparr>"

text \<open>
  The deductions (batch_id, taken) that the inner loop makes on the fetched rows, in order.
\<close>

fun takes :: "(int \<times> real) list \<Rightarrow> real \<Rightarrow> (int \<times> real) list" where
  "takes [] remaining = []"
| "takes ((bid, stock) # rows) remaining =
     (if remaining \<le> 0 then []
      else if min stock remaining \<le> 0 then takes rows remaining
      else (bid, min stock remaining) # takes rows (remaining - min stock remaining))"

text \<open>What a list of deductions takes from the batch \<open>i\<close> in all.\<close>

definition taken_of :: "(int \<times> real) list \<Rightarrow> int \<Rightarrow> real" where
  "taken_of tk i = sum_list (map snd (filter (\<lambda>r. fst r = i) tk))"

text \<open>The batches after the amount \<open>f (batch_id b)\<close> has left every batch \<open>b\<close>.\<close>

definition adjust :: "(int \<Rightarrow> real) \<Rightarrow> batch list \<Rightarrow> batch list" where
  "adjust f bs = map (\<lambda>b. b\<lparr>stock_units := stock_units b - f (batch_id b)\<rparr>) bs"

text \<open>The movements and the database after one item's turn, when no statement fails.\<close>

definition item_moves ::
  "(string \<Rightarrow> 'd::linorder option) \<Rightarrow> string \<Rightarrow> string \<Rightarrow> real \<Rightarrow> database \<Rightarrow> stock_move list" where
  "item_moves date run_date med_id need db =
     (let tk = takes (candidates date run_date med_id db) need;
          remaining = need - sum_list (map snd tk)
      in map (dose_move run_date med_id) tk
         @ (if 1 / 1000000 < remaining then [shortfall_move run_date med_id remaining] else []))"

definition item_result ::
  "(string \<Rightarrow> 'd::linorder option) \<Rightarrow> string \<Rightarrow> string \<Rightarrow> real \<Rightarrow> database \<Rightarrow> database" where
  "item_result date run_date med_id need db =
     db\<lparr>batches := adjust (taken_of (takes (candidates date run_date med_id db) need)) (batches db),
        stock_moves := stock_moves db @ item_moves date run_date med_id need db\<rparr>"

text \<open>The sum of the deltas of the movements that refer to batch \<open>i\<close>.\<close>

definition delta_sum :: "stock_move list \<Rightarrow> int \<Rightarrow> real" where
  "delta_sum ms i = sum_list (map qty_change (filter (\<lambda>m. sm_batch_id m = Some i) ms))"

text \<open>The units that the consumption movements for an item take in all.\<close>

definition consumed :: "stock_move list \<Rightarrow> string \<Rightarrow> real" where
  "consumed ms med_id =
     sum_list (map (\<lambda>m. - qty_change m)
                   (filter (\<lambda>m. reason m = ''daily_dose'' \<and> sm_medicine_id m = med_id) ms))"

text \<open>The aggregate stock of the batches of an item that allocation can draw on.\<close>

definition available :: "(string \<Rightarrow> 'd::linorder option) \<Rightarrow> string \<Rightarrow> string \<Rightarrow> database \<Rightarrow> real" where
  "available date run_date med_id db =
     sum_list (map stock_units (filter (eligible date run_date med_id) (batches db)))"

text \<open>
  The movements of the outer loop over the plan, and what it takes from batch \<open>i\<close>, when
  every item finds the candidates that the database \<open>db\<close> holds for it.
\<close>

definition plan_moves ::
  "(string \<Rightarrow> 'd::linorder option) \<Rightarrow> string \<Rightarrow> database \<Rightarrow> (string \<times> real) list \<Rightarrow> stock_move list" where
  "plan_moves date run_date db items =
     concat (map (\<lambda>(med_id, need). item_moves date run_date med_id need db) items)"

definition plan_taken ::
  "(string \<Rightarrow> 'd::linorder option) \<Rightarrow> string \<Rightarrow> database \<Rightarrow> (string \<times> real) list \<Rightarrow> int \<Rightarrow> real" where
  "plan_taken date run_date db items i =
     sum_list (map (\<lambda>(med_id, need). taken_of (takes (candidates date run_date med_id db) need) i) items)"

text \<open>
  FEFO order in the words of the specification: dated batches by ascending expiry date,
  batches without expiry date last, ties broken by ascending batch identifier.
\<close>

definition fefo_before :: "(string \<Rightarrow> 'd::linorder option) \<Rightarrow> batch \<Rightarrow> batch \<Rightarrow> bool" where
  "fefo_before date b1 b2 =
     (if expiry_date b1 = None
      then expiry_date b2 = None \<and> batch_id b1 < batch_id b2
      else expiry_date b2 = None
           \<or> sql_lt (expiry date b1) (expiry date b2)
           \<or> (sql_eq (expiry date b1) (expiry date b2) \<and> batch_id b1 < batch_id b2))"

text \<open>
  The stock that has left the batches satisfying \<open>P\<close> between two states of the store,
  the batches paired by their place in the table.
\<close>

definition drawn :: "(batch \<Rightarrow> bool) \<Rightarrow> database \<Rightarrow> database \<Rightarrow> real" where
  "drawn P db db' =
     sum_list (map (\<lambda>(b, b'). stock_units b - stock_units b')
                   (filter (\<lambda>(b, b'). P b) (zip (batches db) (batches db'))))"

text \<open>The shortfall movements for an item.\<close>

definition shortfalls :: "stock_move list \<Rightarrow> string \<Rightarrow> stock_move list" where
  "shortfalls ms med_id = filter (\<lambda>m. reason m = ''shortfall'' \<and> sm_medicine_id m = med_id) ms"


section \<open>A worked example\<close>

text \<open>
  A date function for the examples. It reads \<^verbatim>\<open>YYYY-MM-DD\<close>, alone or followed by a
  blank and a time \<^verbatim>\<open>HH:MM\<close> or \<^verbatim>\<open>HH:MM:SS\<close>, as the number \<open>YYYYMMDD\<close>, and gives
  NULL for any other text. SQLite's \<^verbatim>\<open>date()\<close> reads further formats, which the examples
  do not use.
\<close>

definition digit_val :: "char \<Rightarrow> nat option" where
  "digit_val c = (let n = (of_char c :: nat) in if 48 \<le> n \<and> n \<le> 57 then Some (n - 48) else None)"

fun number :: "nat \<Rightarrow> string \<Rightarrow> nat option" where
  "number acc [] = Some acc"
| "number acc (c # cs) = (case digit_val c of None \<Rightarrow> None | Some v \<Rightarrow> number (10 * acc + v) cs)"

definition time_ok :: "string \<Rightarrow> bool" where
  "time_ok t =
     ((length t = 5 \<or> length t = 8) \<and> t ! 2 = CHR '':''
      \<and> (case number 0 (take 2 t) of None \<Rightarrow> False | Some h \<Rightarrow> h \<le> 23)
      \<and> (case number 0 (take 2 (drop 3 t)) of None \<Rightarrow> False | Some m \<Rightarrow> m \<le> 59)
      \<and> (length t = 5
           \<or> (t ! 5 = CHR '':''
               \<and> (case number 0 (drop 6 t) of None \<Rightarrow> False | Some s \<Rightarrow> s \<le> 59))))"

definition iso_date :: "string \<Rightarrow> nat option" where
  "iso_date s =
     (if length s = 10 \<or> (10 < length s \<and> s ! 10 = CHR '' '' \<and> time_ok (drop 11 s))
      then (if s ! 4 = CHR ''-'' \<and> s ! 7 = CHR ''-''
            then (case (number 0 (take 4 s), number 0 (take 2 (drop 5 s)), number 0 (take 2 (drop 8 s))) of
                    (Some y, Some m, Some d) \<Rightarrow>
                      if 1 \<le> m \<and> m \<le> 12 \<and> 1 \<le> d \<and> d \<le> 31 then Some (10000 * y + 100 * m + d) else None
                  | _ \<Rightarrow> None)
            else None)
      else None)"

text \<open>
  Item A of the specification's scenarios (two dated batches, 60 units a day) and an item
  B that is not dosed.
\<close>

definition clinic :: database where
  "clinic =
     \<lparr>medicines = [''A'', ''B''],
      batches =
        [\<lparr>batch_id = 1, medicine_id = ''A'', batch_no = ''A-1'', stock_units = 50,
          expiry_date = Some ''2024-01-10''\<rparr>,
         \<lparr>batch_id = 2, medicine_id = ''A'', batch_no = ''A-2'', stock_units = 30,
          expiry_date = Some ''2024-02-01''\<rparr>,
         \<lparr>batch_id = 3, medicine_id = ''B'', batch_no = ''B-1'', stock_units = 5,
          expiry_date = None\<rparr>,
         \<lparr>batch_id = 4, medicine_id = ''B'', batch_no = ''B-2'', stock_units = 0,
          expiry_date = Some ''2023-12-31''\<rparr>],
      daily_dosage =
        [\<lparr>dd_medicine_id = ''A'', before_bf = Some 20, after_bf = Some 20, at_8pm = Some 20,
          after_dinner = None\<rparr>,
         \<lparr>dd_medicine_id = ''B'', before_bf = Some 0, after_bf = Some 0, at_8pm = None,
          after_dinner = None\<rparr>],
      stock_moves = []\<rparr>"

text \<open>The same store with a dosage row for an item \<open>X\<close> that \<^verbatim>\<open>medicines\<close> does not hold.\<close>

definition clinic_unknown :: database where
  "clinic_unknown =
     clinic\<lparr>daily_dosage := daily_dosage clinic @
        [\<lparr>dd_medicine_id = ''X'', before_bf = Some 1, after_bf = None, at_8pm = None,
          after_dinner = None\<rparr>]\<rparr>"

text \<open>The same store with item B dosed as well, two units a day.\<close>

definition clinic_dosed :: database where
  "clinic_dosed =
     clinic\<lparr>daily_dosage :=
        [\<lparr>dd_medicine_id = ''A'', before_bf = Some 20, after_bf = Some 20, at_8pm = Some 20,
          after_dinner = None\<rparr>,
         \<lparr>dd_medicine_id = ''B'', before_bf = Some 1, after_bf = None, at_8pm = None,
          after_dinner = Some 1\<rparr>]\<rparr>"

text \<open>The same store with a further batch of item B, stocked and past its expiry date.\<close>

definition clinic_stale :: database where
  "clinic_stale =
     clinic\<lparr>batches := batches clinic @
        [\<lparr>batch_id = 5, medicine_id = ''B'', batch_no = ''B-3'', stock_units = 7,
          expiry_date = Some ''2023-12-31''\<rparr>]\<rparr>"

section \<open>Expiry reclamation\<close>

lemma insert_move_Inr:
  "insert_move db m = Inr db' \<Longrightarrow> db' = db\<lparr>stock_moves := stock_moves db @ [m]\<rparr>"
  by (simp add: insert_move_def split: if_splits)

lemma update_stock_Inr:
  "update_stock db t bid = Inr db' \<Longrightarrow>
     db' = db\<lparr>batches := map (\<lambda>b. if batch_id b = bid then b\<lparr>stock_units := stock_units b - t\<rparr> else b)
                              (batches db)\<rparr>"
  by (simp add: update_stock_def split: if_splits)

lemma insert_expired_char:
  "insert_expired run_date rows db =
     (if list_all (\<lambda>(bid, med, qty). 0 < qty \<longrightarrow> med \<in> set (medicines db)
                       \<and> bid \<in> set (map batch_id (batches db))) rows
      then Inr (db\<lparr>stock_moves := stock_moves db @
                  map (expired_move run_date) (filter (\<lambda>(bid, med, qty). 0 < qty) rows)\<rparr>)
      else Inl IntegrityError)"
proof (induction rows arbitrary: db)
  case Nil
  then show ?case by simp
next
  case (Cons row rows)
  obtain bid med qty where row: "row = (bid, med, qty)" by (cases row)
  show ?case
  proof (cases "0 < qty")
    case False
    then show ?thesis by (simp add: row Cons.IH)
  next
    case pos: True
    show ?thesis
    proof (cases "med \<in> set (medicines db) \<and> bid \<in> set (map batch_id (batches db))")
      case False
      then show ?thesis using pos by (auto simp: row insert_move_def)
    next
      case True
      let ?m = "expired_move run_date row"
      let ?db1 = "db\<lparr>stock_moves := stock_moves db @ [?m]\<rparr>"
      from True have ins: "insert_move db ?m = Inr ?db1"
        by (simp add: insert_move_def expired_move_def row)
      show ?thesis using pos True ins Cons.IH[of ?db1]
        by (simp add: row expired_move_def)
    qed
  qed
qed

lemma to_scrap_rows:
  "(bid, med, qty) \<in> set (to_scrap date run_date db) \<Longrightarrow>
     0 < qty \<and> bid \<in> set (map batch_id (batches db))
     \<and> (\<exists>b \<in> set (batches db). batch_id b = bid \<and> medicine_id b = med \<and> stock_units b = qty)"
  by (auto simp: to_scrap_def)

lemma scrap_expired_char:
  "scrap_expired date run_date db =
     (if list_all (\<lambda>(bid, med, qty). med \<in> set (medicines db)) (to_scrap date run_date db)
      then Inr (scrapped date run_date db) else Inl IntegrityError)"
proof -
  let ?scrap = "to_scrap date run_date db"
  let ?db1 = "db\<lparr>batches :=
                  map (\<lambda>b. if batch_id b \<in> set (map fst ?scrap) then b\<lparr>stock_units := 0\<rparr> else b)
                      (batches db)\<rparr>"
  have ids: "map batch_id (batches ?db1) = map batch_id (batches db)"
    by (simp add: comp_def if_distrib cong: if_cong)
  have all: "filter (\<lambda>(bid, med, qty). 0 < qty) ?scrap = ?scrap"
    by (rule filter_True) (auto dest: to_scrap_rows)
  have "list_all (\<lambda>(bid, med, qty). 0 < qty \<longrightarrow> med \<in> set (medicines ?db1)
                       \<and> bid \<in> set (map batch_id (batches ?db1))) ?scrap
        = list_all (\<lambda>(bid, med, qty). med \<in> set (medicines db)) ?scrap"
    unfolding ids by (auto simp: list_all_iff dest: to_scrap_rows)
  then show ?thesis
    unfolding scrap_expired_def Let_def insert_expired_char scrapped_def all
    by simp
qed

lemma scrap_expired_fk:
  "fk_batches db \<Longrightarrow> scrap_expired date run_date db = Inr (scrapped date run_date db)"
  by (auto simp: scrap_expired_char list_all_iff fk_batches_def dest!: to_scrap_rows)

lemma scrap_expired_Inr:
  "scrap_expired date run_date db = Inr db' \<Longrightarrow> db' = scrapped date run_date db"
  by (simp add: scrap_expired_char split: if_splits)

lemma filter_by_key:
  "distinct (map k xs) \<Longrightarrow> x \<in> set xs \<Longrightarrow> filter (\<lambda>y. k y = k x) xs = [x]"
proof (induction xs)
  case Nil
  then show ?case by simp
next
  case (Cons a xs)
  show ?case
  proof (cases "a = x")
    case True
    with Cons.prems have "\<forall>y\<in>set xs. k y \<noteq> k x" by (auto simp: image_iff)
    then have "filter (\<lambda>y. k y = k x) xs = []" by (simp add: filter_empty_conv)
    with True show ?thesis by simp
  next
    case False
    with Cons.prems have "x \<in> set xs" "k a \<noteq> k x" by (auto simp: image_iff)
    with Cons show ?thesis by simp
  qed
qed

lemma expired_logged_batch:
  assumes "pk_batches db" and "b \<in> set (batches db)"
  shows "filter (\<lambda>m. sm_batch_id m = Some (batch_id b))
           (map (expired_move run_date) (to_scrap date run_date db)) =
         (if 0 < stock_units b \<and> expiry_date b \<noteq> None \<and> sql_lt (expiry date b) (date run_date)
          then [expired_move run_date (batch_id b, medicine_id b, stock_units b)] else [])"
proof -
  let ?P = "\<lambda>b. 0 < stock_units b \<and> expiry_date b \<noteq> None \<and> sql_lt (expiry date b) (date run_date)"
  have "filter (\<lambda>m. sm_batch_id m = Some (batch_id b))
           (map (expired_move run_date) (to_scrap date run_date db))
        = map (\<lambda>x. expired_move run_date (batch_id x, medicine_id x, stock_units x))
            (filter ?P (filter (\<lambda>y. batch_id y = batch_id b) (batches db)))"
    by (simp add: to_scrap_def filter_map comp_def expired_move_def conj_commute)
  also have "filter (\<lambda>y. batch_id y = batch_id b) (batches db) = [b]"
    using assms by (simp add: pk_batches_def filter_by_key)
  finally show ?thesis by simp
qed

lemma expired_logged:
  assumes "pk_batches db" and "b \<in> set (batches db)"
  shows "filter (\<lambda>m. reason m = ''expired'' \<and> sm_batch_id m = Some (batch_id b))
           (map (expired_move run_date) (to_scrap date run_date db)) =
         (if 0 < stock_units b \<and> expiry_date b \<noteq> None \<and> sql_lt (expiry date b) (date run_date)
          then [expired_move run_date (batch_id b, medicine_id b, stock_units b)] else [])"
proof -
  have "filter (\<lambda>m. reason m = ''expired'' \<and> sm_batch_id m = Some (batch_id b))
           (map (expired_move run_date) (to_scrap date run_date db))
        = filter (\<lambda>m. sm_batch_id m = Some (batch_id b))
           (map (expired_move run_date) (to_scrap date run_date db))"
    by (rule filter_cong) (auto simp: expired_move_def)
  then show ?thesis by (simp only: expired_logged_batch[OF assms])
qed

lemma scrapped_nth:
  assumes "pk_batches db" and "i < length (batches db)"
  shows "batches (scrapped date run_date db) ! i =
         (if 0 < stock_units (batches db ! i) \<and> expiry_date (batches db ! i) \<noteq> None
             \<and> sql_lt (expiry date (batches db ! i)) (date run_date)
          then (batches db ! i)\<lparr>stock_units := 0\<rparr> else batches db ! i)"
proof -
  let ?b = "batches db ! i"
  let ?P = "\<lambda>b. 0 < stock_units b \<and> expiry_date b \<noteq> None \<and> sql_lt (expiry date b) (date run_date)"
  have mem: "?b \<in> set (batches db)" using assms(2) by simp
  have "batch_id ?b \<in> set (map fst (to_scrap date run_date db)) \<longleftrightarrow> ?P ?b"
  proof
    assume "batch_id ?b \<in> set (map fst (to_scrap date run_date db))"
    then obtain x where x: "x \<in> set (batches db)" "?P x" "batch_id x = batch_id ?b"
      by (auto simp: to_scrap_def)
    from assms(1) x(1) mem x(3) have "x = ?b"
      unfolding pk_batches_def by (meson distinct_map inj_onD)
    with x(2) show "?P ?b" by simp
  next
    assume "?P ?b"
    with mem show "batch_id ?b \<in> set (map fst (to_scrap date run_date db))"
      by (force simp: to_scrap_def)
  qed
  with assms(2) show ?thesis by (simp add: scrapped_def)
qed

lemma appended_scrapped:
  "appended db (scrapped date run_date db) = map (expired_move run_date) (to_scrap date run_date db)"
  by (simp add: appended_def scrapped_def)

text \<open>
  C4. Expiry reclamation for a run date: every batch with stock and with an expiry date
  strictly before the run date is set to zero and gets exactly one \<open>expired\<close> movement,
  whose delta is minus the quantity it held; a batch without expiry date is left as it
  is, and a batch without stock gets no \<open>expired\<close> movement.
\<close>

theorem scrap_expired_reclaims:
  assumes "pk_batches db" and "fk_batches db"
  shows "\<exists>db'. scrap_expired date run_date db = Inr db'
           \<and> length (batches db') = length (batches db)
           \<and> (\<forall>i < length (batches db).
                (\<forall>d r. 0 < stock_units (batches db ! i) \<and> expiry date (batches db ! i) = Some d
                        \<and> date run_date = Some r \<and> d < r \<longrightarrow>
                   batches db' ! i = (batches db ! i)\<lparr>stock_units := 0\<rparr>
                   \<and> map qty_change
                        (filter (\<lambda>m. reason m = ''expired''
                                      \<and> sm_batch_id m = Some (batch_id (batches db ! i)))
                                (appended db db'))
                      = [- stock_units (batches db ! i)])
              \<and> (expiry_date (batches db ! i) = None \<longrightarrow>
                   batches db' ! i = batches db ! i
                   \<and> filter (\<lambda>m. reason m = ''expired''
                                  \<and> sm_batch_id m = Some (batch_id (batches db ! i)))
                            (appended db db') = [])
              \<and> (stock_units (batches db ! i) = 0 \<longrightarrow>
                   filter (\<lambda>m. reason m = ''expired''
                                \<and> sm_batch_id m = Some (batch_id (batches db ! i)))
                          (appended db db') = []))"
proof -
  let ?db' = "scrapped date run_date db"
  have run: "scrap_expired date run_date db = Inr ?db'"
    using assms(2) by (rule scrap_expired_fk)
  have len: "length (batches ?db') = length (batches db)"
    by (simp add: scrapped_def)
  have each: "(\<forall>d r. 0 < stock_units (batches db ! i) \<and> expiry date (batches db ! i) = Some d
                        \<and> date run_date = Some r \<and> d < r \<longrightarrow>
                   batches ?db' ! i = (batches db ! i)\<lparr>stock_units := 0\<rparr>
                   \<and> map qty_change
                        (filter (\<lambda>m. reason m = ''expired''
                                      \<and> sm_batch_id m = Some (batch_id (batches db ! i)))
                                (appended db ?db'))
                      = [- stock_units (batches db ! i)])
              \<and> (expiry_date (batches db ! i) = None \<longrightarrow>
                   batches ?db' ! i = batches db ! i
                   \<and> filter (\<lambda>m. reason m = ''expired''
                                  \<and> sm_batch_id m = Some (batch_id (batches db ! i)))
                            (appended db ?db') = [])
              \<and> (stock_units (batches db ! i) = 0 \<longrightarrow>
                   filter (\<lambda>m. reason m = ''expired''
                                \<and> sm_batch_id m = Some (batch_id (batches db ! i)))
                          (appended db ?db') = [])"
    if i: "i < length (batches db)" for i
  proof -
    let ?b = "batches db ! i"
    have mem: "?b \<in> set (batches db)" using i by simp
    note nth = scrapped_nth[OF assms(1) i, of date run_date]
    note logged = expired_logged[OF assms(1) mem, of run_date date]
    show ?thesis
      unfolding appended_scrapped nth logged
      by (auto simp: expiry_def sql_lt_def expired_move_def split: option.splits)
  qed
  from run len each show ?thesis by blast
qed


text \<open>
  C8. A batch whose expiry date is the run date itself is not reclaimed, and with stock
  it is among the candidates that allocation fetches for its item in the same run.
\<close>

theorem expiry_on_run_date_stays_eligible:
  assumes "pk_batches db" and "fk_batches db" and "i < length (batches db)"
    and "expiry date (batches db ! i) = Some d" and "date run_date = Some d"
  shows "\<exists>db'. scrap_expired date run_date db = Inr db'
           \<and> batches db' ! i = batches db ! i
           \<and> filter (\<lambda>m. sm_batch_id m = Some (batch_id (batches db ! i))) (appended db db') = []
           \<and> (0 < stock_units (batches db ! i) \<longrightarrow>
                (batch_id (batches db ! i), stock_units (batches db ! i))
                  \<in> set (candidates date run_date (medicine_id (batches db ! i)) db'))"
proof -
  let ?db' = "scrapped date run_date db"
  let ?b = "batches db ! i"
  have run: "scrap_expired date run_date db = Inr ?db'"
    using assms(2) by (rule scrap_expired_fk)
  have mem: "?b \<in> set (batches db)" using assms(3) by simp
  have not_before: "\<not> sql_lt (expiry date ?b) (date run_date)"
    using assms(4,5) by (simp add: sql_lt_def)
  have same: "batches ?db' ! i = ?b"
    using scrapped_nth[OF assms(1,3), of date run_date] not_before by simp
  have none: "filter (\<lambda>m. sm_batch_id m = Some (batch_id ?b)) (appended db ?db') = []"
    unfolding appended_scrapped expired_logged_batch[OF assms(1) mem] using not_before by simp
  have cand: "(batch_id ?b, stock_units ?b) \<in> set (candidates date run_date (medicine_id ?b) ?db')"
    if "0 < stock_units ?b"
  proof -
    have "i < length (batches ?db')"
      using assms(3) by (simp add: scrapped_def)
    then have "batches ?db' ! i \<in> set (batches ?db')"
      by (rule nth_mem)
    then have "?b \<in> set (batches ?db')"
      by (simp only: same)
    moreover have "eligible date run_date (medicine_id ?b) ?b"
      using that assms(4,5) by (simp add: eligible_def sql_ge_def)
    ultimately show ?thesis
      by (force simp: candidates_def fefo_batches_def)
  qed
  from run same none cand show ?thesis by blast
qed


lemma clinic_pk: "pk_batches clinic"
  by (simp add: pk_batches_def clinic_def)

lemma clinic_fk: "fk_batches clinic"
  by (simp add: fk_batches_def clinic_def)

lemma iso_date_examples:
  "iso_date ''2024-01-05'' = Some 20240105"
  "iso_date ''2024-01-10'' = Some 20240110"
  "iso_date ''2024-01-15'' = Some 20240115"
  "iso_date ''2024-02-01'' = Some 20240201"
  "iso_date ''2023-12-31'' = Some 20231231"
  "iso_date ''2024-01-05 20:00:00'' = Some 20240105"
  "iso_date ''2024-01-15 20:00:00'' = Some 20240115"
  by (simp_all add: iso_date_def time_ok_def digit_val_def)

theorem scrap_expired_reclaims_witness:
  "pk_batches clinic \<and> fk_batches clinic
   \<and> (\<exists>db'. scrap_expired iso_date ''2024-01-15'' clinic = Inr db'
         \<and> batches db' ! 0 = (batches clinic ! 0)\<lparr>stock_units := 0\<rparr>
         \<and> map qty_change (filter (\<lambda>m. reason m = ''expired'' \<and> sm_batch_id m = Some 1)
                              (appended clinic db')) = [- 50]
         \<and> batches db' ! 2 = batches clinic ! 2
         \<and> filter (\<lambda>m. reason m = ''expired'' \<and> sm_batch_id m = Some 4) (appended clinic db') = [])"
proof -
  from scrap_expired_reclaims[OF clinic_pk clinic_fk, of iso_date "''2024-01-15''"]
  obtain db' where run: "scrap_expired iso_date ''2024-01-15'' clinic = Inr db'"
    and each: "\<And>i. i < length (batches clinic) \<Longrightarrow>
                (\<forall>d r. 0 < stock_units (batches clinic ! i) \<and> expiry iso_date (batches clinic ! i) = Some d
                        \<and> iso_date ''2024-01-15'' = Some r \<and> d < r \<longrightarrow>
                   batches db' ! i = (batches clinic ! i)\<lparr>stock_units := 0\<rparr>
                   \<and> map qty_change
                        (filter (\<lambda>m. reason m = ''expired''
                                      \<and> sm_batch_id m = Some (batch_id (batches clinic ! i)))
                                (appended clinic db'))
                      = [- stock_units (batches clinic ! i)])
              \<and> (expiry_date (batches clinic ! i) = None \<longrightarrow>
                   batches db' ! i = batches clinic ! i
                   \<and> filter (\<lambda>m. reason m = ''expired''
                                  \<and> sm_batch_id m = Some (batch_id (batches clinic ! i)))
                            (appended clinic db') = [])
              \<and> (stock_units (batches clinic ! i) = 0 \<longrightarrow>
                   filter (\<lambda>m. reason m = ''expired''
                                \<and> sm_batch_id m = Some (batch_id (batches clinic ! i)))
                          (appended clinic db') = [])"
    by blast
  have b0: "batches clinic ! 0 = \<lparr>batch_id = 1, medicine_id = ''A'', batch_no = ''A-1'', stock_units = 50,
          expiry_date = Some ''2024-01-10''\<rparr>"
    and b2: "batches clinic ! 2 = \<lparr>batch_id = 3, medicine_id = ''B'', batch_no = ''B-1'', stock_units = 5,
          expiry_date = None\<rparr>"
    and b3: "batches clinic ! 3 = \<lparr>batch_id = 4, medicine_id = ''B'', batch_no = ''B-2'', stock_units = 0,
          expiry_date = Some ''2023-12-31''\<rparr>"
    and len: "length (batches clinic) = 4"
    by (simp_all add: clinic_def)
  have e0: "expiry iso_date (batches clinic ! 0) = Some 20240110"
    by (simp add: b0 expiry_def iso_date_examples)
  from each[of 0] e0 have c0: "batches db' ! 0 = (batches clinic ! 0)\<lparr>stock_units := 0\<rparr>
         \<and> map qty_change (filter (\<lambda>m. reason m = ''expired'' \<and> sm_batch_id m = Some 1)
                              (appended clinic db')) = [- 50]"
    by (simp add: len iso_date_examples b0)
  from each[of 2] have c2: "batches db' ! 2 = batches clinic ! 2"
    by (simp add: len b2)
  from each[of 3] have c3: "filter (\<lambda>m. reason m = ''expired'' \<and> sm_batch_id m = Some 4) (appended clinic db') = []"
    by (simp add: len b3)
  note c0a = conjunct1[OF c0] and c0b = conjunct2[OF c0]
  show ?thesis
    by (intro conjI exI[of _ db']) (rule clinic_pk clinic_fk run c0a c0b c2 c3)+
qed

theorem expiry_on_run_date_stays_eligible_witness:
  "pk_batches clinic \<and> fk_batches clinic \<and> (0::nat) < length (batches clinic)
   \<and> expiry iso_date (batches clinic ! 0) = Some 20240110 \<and> iso_date ''2024-01-10'' = Some 20240110
   \<and> (\<exists>db'. scrap_expired iso_date ''2024-01-10'' clinic = Inr db'
         \<and> batches db' ! 0 = batches clinic ! 0
         \<and> filter (\<lambda>m. sm_batch_id m = Some 1) (appended clinic db') = []
         \<and> (1, 50) \<in> set (candidates iso_date ''2024-01-10'' ''A'' db'))"
proof -
  have len: "(0::nat) < length (batches clinic)" by (simp add: clinic_def)
  have b0: "batches clinic ! 0 = \<lparr>batch_id = 1, medicine_id = ''A'', batch_no = ''A-1'', stock_units = 50,
          expiry_date = Some ''2024-01-10''\<rparr>"
    by (simp add: clinic_def)
  have e0: "expiry iso_date (batches clinic ! 0) = Some 20240110"
    by (simp add: b0 expiry_def iso_date_examples)
  have r: "iso_date ''2024-01-10'' = Some 20240110"
    by (simp add: iso_date_examples)
  from expiry_on_run_date_stays_eligible[OF clinic_pk clinic_fk len e0 r]
  show ?thesis using clinic_pk clinic_fk len e0 r by (simp add: b0)
qed

section \<open>FEFO allocation and the run\<close>

lemma adjust_zero [simp]: "adjust (\<lambda>i. 0) bs = bs"
  by (simp add: adjust_def)

lemma adjust_adjust: "adjust f (adjust g bs) = adjust (\<lambda>i. g i + f i) bs"
  by (simp add: adjust_def comp_def algebra_simps)

lemma update_as_adjust:
  "map (\<lambda>b. if batch_id b = bid then b\<lparr>stock_units := stock_units b - t\<rparr> else b) bs
   = adjust (\<lambda>i. if i = bid then t else 0) bs"
  by (simp add: adjust_def)

lemma taken_of_Nil [simp]: "taken_of [] i = 0"
  by (simp add: taken_of_def)

lemma taken_of_Cons: "taken_of ((bid, t) # tk) i = (if i = bid then t else 0) + taken_of tk i"
  by (auto simp: taken_of_def)

lemma map_batch_id_adjust [simp]: "map batch_id (adjust f bs) = map batch_id bs"
  by (simp add: adjust_def comp_def)

text \<open>What the inner loop leaves behind when no statement fails.\<close>

lemma deduct_rows_break:
  "remaining \<le> 0 \<Longrightarrow>
     deduct_rows run_date med_id ((bid, stock) # rows) db remaining = Inr (db, remaining)"
  by simp

lemma deduct_rows_continue:
  "\<not> remaining \<le> 0 \<Longrightarrow> min stock remaining \<le> 0 \<Longrightarrow>
     deduct_rows run_date med_id ((bid, stock) # rows) db remaining
     = deduct_rows run_date med_id rows db remaining"
  by (subst deduct_rows.simps) (simp only: Let_def if_True if_False)

lemma deduct_rows_take:
  "\<not> remaining \<le> 0 \<Longrightarrow> \<not> min stock remaining \<le> 0 \<Longrightarrow>
     deduct_rows run_date med_id ((bid, stock) # rows) db remaining
     = (case update_stock db (min stock remaining) bid of
          Inl e \<Rightarrow> Inl e
        | Inr db1 \<Rightarrow>
            (case insert_move db1 (dose_move run_date med_id (bid, min stock remaining)) of
               Inl e \<Rightarrow> Inl e
             | Inr db2 \<Rightarrow> deduct_rows run_date med_id rows db2 (remaining - min stock remaining)))"
  by (subst deduct_rows.simps) (simp only: Let_def if_True if_False dose_move_def prod.case)

lemma takes_break: "remaining \<le> 0 \<Longrightarrow> takes rows remaining = []"
  by (cases rows) auto

lemma takes_continue:
  "\<not> remaining \<le> 0 \<Longrightarrow> min stock remaining \<le> 0 \<Longrightarrow>
     takes ((bid, stock) # rows) remaining = takes rows remaining"
  by (subst takes.simps) (simp only: if_True if_False)

lemma takes_take:
  "\<not> remaining \<le> 0 \<Longrightarrow> \<not> min stock remaining \<le> 0 \<Longrightarrow>
     takes ((bid, stock) # rows) remaining
     = (bid, min stock remaining) # takes rows (remaining - min stock remaining)"
  by (subst takes.simps) (simp only: if_True if_False)

text \<open>What the inner loop leaves behind when no statement fails.\<close>

lemma deduct_rows_Inr:
  "deduct_rows run_date med_id rows db remaining = Inr (db', remaining') \<Longrightarrow>
     db' = db\<lparr>batches := adjust (taken_of (takes rows remaining)) (batches db),
              stock_moves := stock_moves db @ map (dose_move run_date med_id) (takes rows remaining)\<rparr>
     \<and> remaining' = remaining - sum_list (map snd (takes rows remaining))"
proof (induction rows arbitrary: db remaining)
  case Nil
  then show ?case by (simp add: adjust_def taken_of_def)
next
  case (Cons row rows)
  obtain bid stock where row: "row = (bid, stock)" by (cases row)
  show ?case
  proof (cases "remaining \<le> 0")
    case True
    with Cons.prems show ?thesis
      by (simp add: row deduct_rows_break takes_break adjust_def taken_of_def)
  next
    case pos: False
    show ?thesis
    proof (cases "min stock remaining \<le> 0")
      case True
      from Cons.prems have "deduct_rows run_date med_id rows db remaining = Inr (db', remaining')"
        by (simp only: row deduct_rows_continue[OF pos True])
      from Cons.IH[OF this] show ?thesis
        by (simp only: row takes_continue[OF pos True])
    next
      case False
      let ?t = "min stock remaining"
      from Cons.prems obtain db1 db2 where
        upd: "update_stock db ?t bid = Inr db1"
        and ins: "insert_move db1 (dose_move run_date med_id (bid, ?t)) = Inr db2"
        and rest: "deduct_rows run_date med_id rows db2 (remaining - ?t) = Inr (db', remaining')"
        unfolding row deduct_rows_take[OF pos False] by (auto split: sum.splits)
      note ih = Cons.IH[OF rest]
      from update_stock_Inr[OF upd] insert_move_Inr[OF ins]
      have db2: "db2 = db\<lparr>batches := adjust (\<lambda>i. if i = bid then ?t else 0) (batches db),
                          stock_moves := stock_moves db @ [dose_move run_date med_id (bid, ?t)]\<rparr>"
        by (simp add: update_as_adjust)
      show ?thesis
        unfolding row takes_take[OF pos False] using ih
        by (simp add: db2 adjust_adjust taken_of_Cons[abs_def])
    qed
  qed
qed


lemma deduct_rows_known:
  "deduct_rows run_date med_id rows db remaining = Inr r \<Longrightarrow> takes rows remaining \<noteq> [] \<Longrightarrow>
     med_id \<in> set (medicines db)"
proof (induction rows arbitrary: db remaining)
  case Nil
  then show ?case by simp
next
  case (Cons row rows)
  obtain bid stock where row: "row = (bid, stock)" by (cases row)
  show ?case
  proof (cases "remaining \<le> 0")
    case True
    with Cons.prems show ?thesis by (simp add: takes_break)
  next
    case pos: False
    show ?thesis
    proof (cases "min stock remaining \<le> 0")
      case True
      from Cons.prems show ?thesis
        unfolding row deduct_rows_continue[OF pos True] takes_continue[OF pos True]
        by (rule Cons.IH)
    next
      case False
      from Cons.prems(1) obtain db1 db2 where
        upd: "update_stock db (min stock remaining) bid = Inr db1"
        and ins: "insert_move db1 (dose_move run_date med_id (bid, min stock remaining)) = Inr db2"
        unfolding row deduct_rows_take[OF pos False] by (auto split: sum.splits)
      from ins have "med_id \<in> set (medicines db1)"
        by (simp add: insert_move_def dose_move_def split: if_splits)
      with update_stock_Inr[OF upd] show ?thesis by simp
    qed
  qed
qed

text \<open>
  The inner loop does not fail when the item is known and the fetched rows are rows of
  distinct batches with the stock they hold.
\<close>

lemma deduct_rows_ok:
  assumes "med_id \<in> set (medicines db)" and "distinct (map fst rows)"
    and "\<forall>(bid, stock) \<in> set rows. bid \<in> set (map batch_id (batches db))
           \<and> (\<forall>b \<in> set (batches db). batch_id b = bid \<longrightarrow> stock_units b = stock)"
  shows "\<exists>r. deduct_rows run_date med_id rows db remaining = Inr r"
  using assms
proof (induction rows arbitrary: db remaining)
  case Nil
  then show ?case by simp
next
  case (Cons row rows)
  obtain bid stock where row: "row = (bid, stock)" by (cases row)
  show ?case
  proof (cases "remaining \<le> 0")
    case True
    then show ?thesis by (simp add: row deduct_rows_break)
  next
    case pos: False
    show ?thesis
    proof (cases "min stock remaining \<le> 0")
      case True
      have "\<exists>r. deduct_rows run_date med_id rows db remaining = Inr r"
        using Cons.prems by (intro Cons.IH) (auto simp: row)
      then show ?thesis by (simp only: row deduct_rows_continue[OF pos True])
    next
      case False
      let ?t = "min stock remaining"
      let ?db1 = "db\<lparr>batches := adjust (\<lambda>i. if i = bid then ?t else 0) (batches db)\<rparr>"
      let ?db2 = "?db1\<lparr>stock_moves := stock_moves ?db1 @ [dose_move run_date med_id (bid, ?t)]\<rparr>"
      from Cons.prems(3) have here: "bid \<in> set (map batch_id (batches db))"
        "\<forall>b \<in> set (batches db). batch_id b = bid \<longrightarrow> stock_units b = stock"
        by (auto simp: row)
      have upd: "update_stock db ?t bid = Inr ?db1"
        using here(2) by (simp add: update_stock_def list_all_iff update_as_adjust)
      have ins: "insert_move ?db1 (dose_move run_date med_id (bid, ?t)) = Inr ?db2"
        using Cons.prems(1) here(1) by (simp add: insert_move_def dose_move_def)
      have "\<forall>(bid', stock') \<in> set rows. bid' \<in> set (map batch_id (batches ?db2))
           \<and> (\<forall>b \<in> set (batches ?db2). batch_id b = bid' \<longrightarrow> stock_units b = stock')"
      proof (clarify, intro conjI ballI impI)
        fix bid' stock'
        assume r: "(bid', stock') \<in> set rows"
        with Cons.prems(3) show "bid' \<in> set (map batch_id (batches ?db2))" by auto
        fix b assume b: "b \<in> set (batches ?db2)" "batch_id b = bid'"
        from r Cons.prems(2) have ne: "bid' \<noteq> bid" by (force simp: row)
        from b(1) obtain b0 where b0: "b0 \<in> set (batches db)"
          "b = b0\<lparr>stock_units := stock_units b0 - (if batch_id b0 = bid then ?t else 0)\<rparr>"
          by (auto simp: adjust_def)
        with b(2) ne have "b = b0" by auto
        with b0(1) b(2) r Cons.prems(3) show "stock_units b = stock'" by auto
      qed
      moreover have "med_id \<in> set (medicines ?db2)" using Cons.prems(1) by simp
      moreover have "distinct (map fst rows)" using Cons.prems(2) by simp
      ultimately have "\<exists>r. deduct_rows run_date med_id rows ?db2 (remaining - ?t) = Inr r"
        by (intro Cons.IH)
      then show ?thesis
        by (simp only: row deduct_rows_take[OF pos False] upd ins sum.case)
    qed
  qed
qed

lemma distinct_map_insort_key:
  "distinct (map f (insort_key k x xs)) \<longleftrightarrow> f x \<notin> f ` set xs \<and> distinct (map f xs)"
  by (induction xs) (auto simp: set_insort_key)

lemma distinct_map_sort_key:
  "distinct (map f xs) \<Longrightarrow> distinct (map f (sort_key k xs))"
  by (induction xs) (auto simp: sort_key_def distinct_map_insort_key simp flip: sort_key_def)

lemma candidates_rows:
  assumes "pk_batches db"
  shows "distinct (map fst (candidates date run_date med_id db))"
    and "\<forall>(bid, stock) \<in> set (candidates date run_date med_id db).
           bid \<in> set (map batch_id (batches db))
           \<and> (\<forall>b \<in> set (batches db). batch_id b = bid \<longrightarrow> stock_units b = stock)"
proof -
  have "distinct (map batch_id (filter (eligible date run_date med_id) (batches db)))"
    using assms unfolding pk_batches_def by (rule distinct_map_filter)
  then show "distinct (map fst (candidates date run_date med_id db))"
    by (simp add: candidates_def fefo_batches_def comp_def distinct_map_sort_key)
  show "\<forall>(bid, stock) \<in> set (candidates date run_date med_id db).
           bid \<in> set (map batch_id (batches db))
           \<and> (\<forall>b \<in> set (batches db). batch_id b = bid \<longrightarrow> stock_units b = stock)"
  proof (clarify, intro conjI ballI impI)
    fix bid stock
    assume "(bid, stock) \<in> set (candidates date run_date med_id db)"
    then obtain c where c: "c \<in> set (batches db)" "batch_id c = bid" "stock_units c = stock"
      by (auto simp: candidates_def fefo_batches_def)
    then show "bid \<in> set (map batch_id (batches db))" by auto
    fix b assume "b \<in> set (batches db)" "batch_id b = bid"
    with c assms have "b = c"
      unfolding pk_batches_def by (metis distinct_map inj_onD)
    with c show "stock_units b = stock" by simp
  qed
qed


subsection \<open>One item\<close>

lemma deduct_item_Inr:
  assumes "deduct_item date run_date med_id need db = Inr db'"
  shows "db' = item_result date run_date med_id need db"
proof -
  let ?rows = "candidates date run_date med_id db"
  from assms obtain db1 remaining where
    rows: "deduct_rows run_date med_id ?rows db need = Inr (db1, remaining)"
    by (auto simp: deduct_item_def split: sum.splits)
  note closed = deduct_rows_Inr[OF rows]
  show ?thesis
  proof (cases "1 / 1000000 < remaining")
    case True
    with assms rows have "insert_move db1 (shortfall_move run_date med_id remaining) = Inr db'"
      by (simp add: deduct_item_def shortfall_move_def)
    from insert_move_Inr[OF this] closed True show ?thesis
      by (simp add: item_result_def item_moves_def Let_def)
  next
    case False
    with assms rows have "db' = db1" by (simp add: deduct_item_def)
    with closed False show ?thesis
      by (simp add: item_result_def item_moves_def Let_def)
  qed
qed

lemma deduct_item_ok:
  assumes "pk_batches db" and "med_id \<in> set (medicines db)"
  shows "deduct_item date run_date med_id need db = Inr (item_result date run_date med_id need db)"
proof -
  let ?rows = "candidates date run_date med_id db"
  have "\<exists>r. deduct_rows run_date med_id ?rows db need = Inr r"
    using assms(2) candidates_rows[OF assms(1)] by (rule deduct_rows_ok)
  then obtain db1 remaining where
    rows: "deduct_rows run_date med_id ?rows db need = Inr (db1, remaining)"
    by auto
  from deduct_rows_Inr[OF rows] assms(2) have "med_id \<in> set (medicines db1)" by simp
  then have "\<exists>db'. deduct_item date run_date med_id need db = Inr db'"
    using rows by (simp add: deduct_item_def insert_move_def)
  then show ?thesis using deduct_item_Inr by blast
qed

lemma deduct_item_unknown:
  assumes "med_id \<notin> set (medicines db)" and "1 / 1000000 < need"
  shows "deduct_item date run_date med_id need db = Inl IntegrityError"
proof (cases "deduct_rows run_date med_id (candidates date run_date med_id db) db need")
  case (Inl e)
  then show ?thesis by (cases e) (simp add: deduct_item_def)
next
  case (Inr r)
  obtain db1 remaining where r: "r = (db1, remaining)" by (cases r)
  from deduct_rows_known[OF Inr] assms(1)
  have none: "takes (candidates date run_date med_id db) need = []" by blast
  from deduct_rows_Inr[OF Inr[unfolded r]] none
  have "medicines db1 = medicines db" "remaining = need" by simp_all
  with assms Inr r show ?thesis
    by (simp add: deduct_item_def insert_move_def)
qed

lemma item_result_frame [simp]:
  "medicines (item_result date run_date med_id need db) = medicines db"
  "daily_dosage (item_result date run_date med_id need db) = daily_dosage db"
  "map batch_id (batches (item_result date run_date med_id need db)) = map batch_id (batches db)"
  by (simp_all add: item_result_def)

lemma item_result_pk [simp]:
  "pk_batches (item_result date run_date med_id need db) = pk_batches db"
  by (simp add: pk_batches_def)

subsection \<open>The plan and the run\<close>

lemma fefo_deduct_plan:
  "fefo_deduct date run_date db = deduct_plan date run_date (plan db) db"
  by (simp add: fefo_deduct_def)

text \<open>A property that every turn of the outer loop keeps holds after the loop.\<close>

lemma deduct_plan_invariant:
  assumes "deduct_plan date run_date items db = Inr db'" and "Q db"
    and "\<And>med_id need x. (med_id, need) \<in> set items \<Longrightarrow> Q x \<Longrightarrow>
           deduct_item date run_date med_id need x = Inr (item_result date run_date med_id need x) \<Longrightarrow>
           Q (item_result date run_date med_id need x)"
  shows "Q db'"
  using assms
proof (induction items arbitrary: db)
  case Nil
  then show ?case by simp
next
  case (Cons item items)
  obtain med_id need where item: "item = (med_id, need)" by (cases item)
  from Cons.prems(1) obtain db1 where
    first: "deduct_item date run_date med_id need db = Inr db1"
    and rest: "deduct_plan date run_date items db1 = Inr db'"
    by (auto simp: item split: sum.splits)
  note db1 = deduct_item_Inr[OF first]
  have "Q db1"
    unfolding db1 using first Cons.prems(2) by (intro Cons.prems(3)) (simp_all add: item db1)
  with rest show ?case
    by (rule Cons.IH) (rule Cons.prems(3), simp_all)
qed

lemma plan_scrapped [simp]: "plan (scrapped date run_date db) = plan db"
  by (simp add: plan_def v_daily_units_def scrapped_def)

lemma main_Committed:
  assumes "main date force run_date db = (Committed, db')"
  shows "\<not> (already_ran_for date db run_date \<and> \<not> force)"
    and "scrap_expired date run_date db = Inr (scrapped date run_date db)"
    and "deduct_plan date run_date (plan db) (scrapped date run_date db) = Inr db'"
proof -
  from assms show guard: "\<not> (already_ran_for date db run_date \<and> \<not> force)"
    by (auto simp: main_def split: if_splits)
  from assms guard obtain db1 where s: "scrap_expired date run_date db = Inr db1"
    and f: "fefo_deduct date run_date db1 = Inr db'"
    by (auto simp: main_def split: sum.splits if_splits)
  from scrap_expired_Inr[OF s] s show "scrap_expired date run_date db = Inr (scrapped date run_date db)"
    by simp
  from f scrap_expired_Inr[OF s]
  show "deduct_plan date run_date (plan db) (scrapped date run_date db) = Inr db'"
    by (simp add: fefo_deduct_plan)
qed

lemma main_not_Committed:
  assumes "main date force run_date db = (r, db')" and "r \<noteq> Committed"
  shows "db' = db"
  using assms by (auto simp: main_def split: sum.splits if_splits)


lemma item_moves_shape:
  assumes "m \<in> set (item_moves date run_date med_id need db)"
  shows "ts m = log_ts run_date" and "sm_medicine_id m = med_id"
    and "reason m = ''daily_dose'' \<or> reason m = ''shortfall''"
    and "reason m = ''shortfall'' \<longrightarrow> qty_change m = 0 \<and> sm_batch_id m = None"
  using assms
  by (auto simp: item_moves_def Let_def dose_move_def shortfall_move_def split: if_splits)

lemma expired_move_shape:
  "ts (expired_move run_date row) = log_ts run_date"
  "reason (expired_move run_date row) = ''expired''"
  by (simp_all add: expired_move_def split: prod.splits)

lemma appended_same [simp]: "appended db db = []"
  by (simp add: appended_def)

lemma appended_append:
  "stock_moves db' = stock_moves db @ new \<Longrightarrow> appended db db' = new"
  by (simp add: appended_def)

text \<open>Every run only appends to the movement log, and stamps what it appends.\<close>

lemma main_appends:
  assumes "main date force run_date db = (r, db')"
  shows "stock_moves db' = stock_moves db @ appended db db'"
    and "\<forall>m \<in> set (appended db db'). ts m = log_ts run_date"
proof -
  let ?Q = "\<lambda>x. \<exists>new. stock_moves x = stock_moves db @ new \<and> (\<forall>m \<in> set new. ts m = log_ts run_date)"
  have "?Q db'"
  proof (cases "r = Committed")
    case False
    with assms have "db' = db" by (rule main_not_Committed)
    then show ?thesis by simp
  next
    case True
    note run = main_Committed[OF assms[unfolded True]]
    have start: "?Q (scrapped date run_date db)"
      by (auto simp: scrapped_def expired_move_shape)
    have step: "?Q (item_result date run_date med_id need x)" if "?Q x" for med_id need x
    proof -
      from that obtain new where new: "stock_moves x = stock_moves db @ new"
        "\<forall>m \<in> set new. ts m = log_ts run_date" by blast
      have "stock_moves (item_result date run_date med_id need x)
            = stock_moves db @ (new @ item_moves date run_date med_id need x)"
        by (simp add: item_result_def new(1))
      moreover have "\<forall>m \<in> set (new @ item_moves date run_date med_id need x). ts m = log_ts run_date"
        using new(2) by (auto dest: item_moves_shape(1))
      ultimately show ?thesis by blast
    qed
    from run(3) start show ?thesis
      by (rule deduct_plan_invariant) (rule step)
  qed
  then obtain new where new: "stock_moves db' = stock_moves db @ new"
    "\<forall>m \<in> set new. ts m = log_ts run_date" by blast
  from appended_append[OF new(1)] new
  show "stock_moves db' = stock_moves db @ appended db db'"
    and "\<forall>m \<in> set (appended db db'). ts m = log_ts run_date"
    by simp_all
qed

text \<open>
  C10. Whatever a run appends to the movement log carries the timestamp
  \<open>run_date @ '' 20:00:00''\<close>; the run takes no clock, so the timestamp depends on the
  run date alone, and any two movements of the run have equal timestamps.
\<close>

theorem movements_share_timestamp:
  assumes "main date force run_date db = (r, db')"
  shows "stock_moves db' = stock_moves db @ appended db db'
         \<and> (\<forall>m \<in> set (appended db db'). ts m = run_date @ '' 20:00:00'')
         \<and> (\<forall>m1 \<in> set (appended db db'). \<forall>m2 \<in> set (appended db db'). ts m1 = ts m2)"
  using main_appends[OF assms] by (simp add: log_ts_def)

lemma error_unique: "(e::error) = IntegrityError"
  by (cases e)

lemma deduct_plan_unknown:
  assumes "(med_id, need) \<in> set items" and "med_id \<notin> set (medicines db)" and "1 / 1000000 < need"
  shows "deduct_plan date run_date items db = Inl IntegrityError"
  using assms
proof (induction items arbitrary: db)
  case Nil
  then show ?case by simp
next
  case (Cons item items)
  obtain m n where item: "item = (m, n)" by (cases item)
  show ?case
  proof (cases "deduct_item date run_date m n db")
    case (Inl e)
    then show ?thesis by (simp add: item error_unique[of e])
  next
    case (Inr db1)
    note db1 = deduct_item_Inr[OF Inr]
    have "item \<noteq> (med_id, need)"
      using Inr deduct_item_unknown[OF Cons.prems(2,3), of date run_date] by (auto simp: item)
    with Cons.prems(1) have "(med_id, need) \<in> set items" by simp
    moreover have "med_id \<notin> set (medicines db1)" using Cons.prems(2) by (simp add: db1)
    ultimately have "deduct_plan date run_date items db1 = Inl IntegrityError"
      using Cons.prems(3) by (intro Cons.IH)
    with Inr show ?thesis by (simp add: item)
  qed
qed

text \<open>
  C7, as the code has it. A plan entry whose item is not in \<^verbatim>\<open>medicines\<close> is not skipped:
  once its need exceeds the shortfall tolerance, the movement the run inserts for it
  breaks the foreign key, the run fails with an integrity error and leaves the database
  as it found it, the other items' deductions included.
\<close>

theorem unknown_item_aborts_run:
  assumes "(med_id, need) \<in> set (plan db)" and "med_id \<notin> set (medicines db)"
    and "1 / 1000000 < need" and "\<not> (already_ran_for date db run_date \<and> \<not> force)"
  shows "main date force run_date db = (Failed IntegrityError, db)"
proof (cases "scrap_expired date run_date db")
  case (Inl e)
  with assms(4) show ?thesis by (auto simp: main_def error_unique[of e])
next
  case (Inr db1)
  note db1 = scrap_expired_Inr[OF Inr]
  have "med_id \<notin> set (medicines db1)" using assms(2) by (simp add: db1 scrapped_def)
  moreover have "(med_id, need) \<in> set (plan db1)" using assms(1) by (simp add: db1)
  ultimately have "fefo_deduct date run_date db1 = Inl IntegrityError"
    unfolding fefo_deduct_plan using assms(3) by (intro deduct_plan_unknown)
  with Inr assms(4) show ?thesis by (auto simp: main_def)
qed

lemmas run_defs =
  main_def already_ran_for_def scrap_expired_def to_scrap_def fefo_deduct_def plan_def
  v_daily_units_def units_per_day_def coalesce_def deduct_item_def candidates_def
  fefo_batches_def eligible_def fefo_key_def expiry_def sql_ge_def sql_lt_def sql_eq_def
  update_stock_def insert_move_def log_ts_def iso_date_def time_ok_def digit_val_def

theorem unknown_item_not_skipped:
  "''X'' \<notin> set (medicines clinic_unknown)
   \<and> (''A'', 60) \<in> set (plan clinic_unknown) \<and> (''X'', 1) \<in> set (plan clinic_unknown)
   \<and> main iso_date False ''2024-01-05'' clinic_unknown = (Failed IntegrityError, clinic_unknown)"
  by (simp add: run_defs clinic_unknown_def clinic_def)

theorem unknown_item_aborts_run_witness:
  "(''X'', 1) \<in> set (plan clinic_unknown) \<and> ''X'' \<notin> set (medicines clinic_unknown)
   \<and> (1 / 1000000 :: real) < 1
   \<and> \<not> (already_ran_for iso_date clinic_unknown ''2024-01-05'' \<and> \<not> False)
   \<and> main iso_date False ''2024-01-05'' clinic_unknown = (Failed IntegrityError, clinic_unknown)"
proof -
  have a: "(''X'', 1) \<in> set (plan clinic_unknown)"
    by (simp add: plan_def v_daily_units_def units_per_day_def coalesce_def clinic_unknown_def clinic_def)
  have b: "''X'' \<notin> set (medicines clinic_unknown)"
    by (simp add: clinic_unknown_def clinic_def)
  have c: "(1 / 1000000 :: real) < 1" by simp
  have d: "\<not> (already_ran_for iso_date clinic_unknown ''2024-01-05'' \<and> \<not> False)"
    by (simp add: already_ran_for_def clinic_unknown_def clinic_def)
  from unknown_item_aborts_run[OF a b c d] a b c d show ?thesis by blast
qed

theorem movements_share_timestamp_witness:
  "main iso_date False ''2024-01-15'' clinic = (Committed, snd (main iso_date False ''2024-01-15'' clinic))
   \<and> map ts (appended clinic (snd (main iso_date False ''2024-01-15'' clinic)))
       = [''2024-01-15 20:00:00'', ''2024-01-15 20:00:00'', ''2024-01-15 20:00:00'']"
proof -
  let ?new = "appended clinic (snd (main iso_date False ''2024-01-15'' clinic))"
  have run: "main iso_date False ''2024-01-15'' clinic
             = (Committed, snd (main iso_date False ''2024-01-15'' clinic))"
    by (simp add: run_defs clinic_def)
  have len: "length ?new = 3"
    by (simp add: run_defs clinic_def appended_def)
  from movements_share_timestamp[OF run]
  have "\<forall>t \<in> set (map ts ?new). t = ''2024-01-15 20:00:00''" by simp
  then have "replicate (length (map ts ?new)) ''2024-01-15 20:00:00'' = map ts ?new"
    by (rule replicate_length_same)
  with len have "map ts ?new = [''2024-01-15 20:00:00'', ''2024-01-15 20:00:00'', ''2024-01-15 20:00:00'']"
    by (simp add: numeral_3_eq_3)
  with run show ?thesis by (rule conjI)
qed

section \<open>The run in closed form\<close>

lemma takes_fst: "(b, t) \<in> set (takes rows remaining) \<Longrightarrow> b \<in> fst ` set rows"
proof (induction rows arbitrary: remaining)
  case Nil
  then show ?case by simp
next
  case (Cons row rows)
  obtain bid stock where row: "row = (bid, stock)" by (cases row)
  from Cons.prems show ?case
    unfolding row by (auto split: if_splits dest: Cons.IH)
qed

lemma taken_of_notin: "i \<notin> fst ` set tk \<Longrightarrow> taken_of tk i = 0"
proof -
  assume "i \<notin> fst ` set tk"
  then have "filter (\<lambda>r. fst r = i) tk = []"
    by (auto simp: filter_empty_conv)
  then show ?thesis by (simp add: taken_of_def)
qed

lemma taken_of_takes_notin: "i \<notin> fst ` set rows \<Longrightarrow> taken_of (takes rows remaining) i = 0"
  by (rule taken_of_notin) (auto dest: takes_fst)

lemma taken_of_append: "taken_of (xs @ ys) i = taken_of xs i + taken_of ys i"
  by (simp add: taken_of_def)

lemma candidates_fst:
  "i \<in> fst ` set (candidates date run_date med_id db) \<Longrightarrow>
     \<exists>b \<in> set (batches db). batch_id b = i \<and> eligible date run_date med_id b"
  by (auto simp: candidates_def fefo_batches_def)

lemma pk_batches_same:
  "pk_batches db \<Longrightarrow> b \<in> set (batches db) \<Longrightarrow> c \<in> set (batches db) \<Longrightarrow>
     batch_id b = batch_id c \<Longrightarrow> b = c"
  unfolding pk_batches_def by (meson distinct_map inj_onD)

lemma taken_ineligible:
  assumes "pk_batches db" and "b \<in> set (batches db)" and "\<not> eligible date run_date med_id b"
  shows "taken_of (takes (candidates date run_date med_id db) need) (batch_id b) = 0"
proof (rule taken_of_takes_notin, rule notI)
  assume "batch_id b \<in> fst ` set (candidates date run_date med_id db)"
  from candidates_fst[OF this] obtain c where "c \<in> set (batches db)" "batch_id c = batch_id b"
    "eligible date run_date med_id c"
    by blast
  with assms show False by (auto dest: pk_batches_same)
qed

lemma adjust_nth:
  "i < length bs \<Longrightarrow>
     adjust f bs ! i = (bs ! i)\<lparr>stock_units := stock_units (bs ! i) - f (batch_id (bs ! i))\<rparr>"
  by (simp add: adjust_def)

lemma length_adjust [simp]: "length (adjust f bs) = length bs"
  by (simp add: adjust_def)

lemma filter_map_same:
  "(\<And>x. x \<in> set xs \<Longrightarrow> P (g x) \<or> P x \<Longrightarrow> g x = x) \<Longrightarrow> filter P (map g xs) = filter P xs"
proof (induction xs)
  case Nil
  then show ?case by simp
next
  case (Cons a xs)
  have here: "P (g a) \<or> P a \<Longrightarrow> g a = a"
    using Cons.prems[of a] by simp
  have rest: "filter P (map g xs) = filter P xs"
    by (rule Cons.IH) (rule Cons.prems, simp_all)
  show ?case
  proof (cases "P (g a) \<or> P a")
    case True
    with here have "g a = a" by simp
    with rest show ?thesis by simp
  next
    case False
    with rest show ?thesis by simp
  qed
qed

lemma eligible_adjusted:
  "eligible date run_date med_id (b\<lparr>stock_units := s\<rparr>) \<Longrightarrow> medicine_id b = med_id"
  by (simp add: eligible_def)

lemma candidates_item_result_other:
  assumes "pk_batches db" and "m' \<noteq> m"
  shows "candidates date run_date m' (item_result date run_date m n db)
         = candidates date run_date m' db"
proof -
  let ?f = "taken_of (takes (candidates date run_date m db) n)"
  have "filter (eligible date run_date m')
          (map (\<lambda>b. b\<lparr>stock_units := stock_units b - ?f (batch_id b)\<rparr>) (batches db))
        = filter (eligible date run_date m') (batches db)"
  proof (rule filter_map_same)
    fix b assume b: "b \<in> set (batches db)"
      and "eligible date run_date m' (b\<lparr>stock_units := stock_units b - ?f (batch_id b)\<rparr>)
           \<or> eligible date run_date m' b"
    then have "medicine_id b = m'" by (auto simp: eligible_def)
    with assms(2) have "\<not> eligible date run_date m b" by (simp add: eligible_def)
    from taken_ineligible[OF assms(1) b this] show
      "b\<lparr>stock_units := stock_units b - ?f (batch_id b)\<rparr> = b" by simp
  qed
  then show ?thesis
    by (simp add: candidates_def fefo_batches_def item_result_def adjust_def)
qed

lemma scrap_ids:
  assumes "pk_batches db" and "b \<in> set (batches db)"
  shows "batch_id b \<in> set (map fst (to_scrap date run_date db)) \<longleftrightarrow>
         0 < stock_units b \<and> expiry_date b \<noteq> None \<and> sql_lt (expiry date b) (date run_date)"
proof
  assume "batch_id b \<in> set (map fst (to_scrap date run_date db))"
  then obtain x where x: "x \<in> set (batches db)" "batch_id x = batch_id b"
    "0 < stock_units x \<and> expiry_date x \<noteq> None \<and> sql_lt (expiry date x) (date run_date)"
    by (auto simp: to_scrap_def)
  with assms have "x = b" by (auto dest: pk_batches_same)
  with x(3) show "0 < stock_units b \<and> expiry_date b \<noteq> None \<and> sql_lt (expiry date b) (date run_date)"
    by simp
next
  assume "0 < stock_units b \<and> expiry_date b \<noteq> None \<and> sql_lt (expiry date b) (date run_date)"
  with assms(2) show "batch_id b \<in> set (map fst (to_scrap date run_date db))"
    by (force simp: to_scrap_def)
qed

lemma not_scrapped_eligible:
  "eligible date run_date med_id b \<Longrightarrow>
     \<not> (expiry_date b \<noteq> None \<and> sql_lt (expiry date b) (date run_date))"
  by (auto simp: eligible_def sql_lt_def sql_ge_def split: option.splits)

lemma candidates_scrapped:
  assumes "pk_batches db"
  shows "candidates date run_date med_id (scrapped date run_date db)
         = candidates date run_date med_id db"
proof -
  let ?g = "\<lambda>b. if batch_id b \<in> set (map fst (to_scrap date run_date db))
                  then b\<lparr>stock_units := 0\<rparr> else b"
  have "filter (eligible date run_date med_id) (map ?g (batches db))
        = filter (eligible date run_date med_id) (batches db)"
  proof (rule filter_map_same)
    fix b assume b: "b \<in> set (batches db)"
      and e: "eligible date run_date med_id (?g b) \<or> eligible date run_date med_id b"
    show "?g b = b"
    proof (cases "batch_id b \<in> set (map fst (to_scrap date run_date db))")
      case False
      then show ?thesis by simp
    next
      case True
      with e have "eligible date run_date med_id b" by (auto simp: eligible_def)
      from not_scrapped_eligible[OF this] True scrap_ids[OF assms b, of date run_date]
      show ?thesis by blast
    qed
  qed
  then show ?thesis
    by (simp add: candidates_def fefo_batches_def scrapped_def)
qed


subsection \<open>The plan in closed form\<close>

lemma item_moves_cong:
  "candidates date run_date med_id x = candidates date run_date med_id db \<Longrightarrow>
     item_moves date run_date med_id need x = item_moves date run_date med_id need db"
  by (simp add: item_moves_def)

lemma plan_moves_Cons:
  "plan_moves date run_date db ((med_id, need) # items)
   = item_moves date run_date med_id need db @ plan_moves date run_date db items"
  by (simp add: plan_moves_def)

lemma plan_taken_Cons:
  "plan_taken date run_date db ((med_id, need) # items) i
   = taken_of (takes (candidates date run_date med_id db) need) i
     + plan_taken date run_date db items i"
  by (simp add: plan_taken_def)

lemma plan_other_cong:
  assumes "\<And>m. m \<in> fst ` set items \<Longrightarrow>
             candidates date run_date m x = candidates date run_date m db"
  shows "plan_moves date run_date x items = plan_moves date run_date db items"
    and "plan_taken date run_date x items = plan_taken date run_date db items"
proof -
  have both: "plan_moves date run_date x items = plan_moves date run_date db items
              \<and> (\<forall>i. plan_taken date run_date x items i = plan_taken date run_date db items i)"
    using assms
  proof (induction items)
    case Nil
    show ?case by (simp add: plan_moves_def plan_taken_def)
  next
    case (Cons item items)
    obtain m n where item: "item = (m, n)" by (cases item)
    have here: "candidates date run_date m x = candidates date run_date m db"
      by (rule Cons.prems) (simp add: item)
    have rest: "plan_moves date run_date x items = plan_moves date run_date db items
              \<and> (\<forall>i. plan_taken date run_date x items i = plan_taken date run_date db items i)"
      by (rule Cons.IH) (rule Cons.prems, simp)
    from here have "item_moves date run_date m n x = item_moves date run_date m n db"
      by (rule item_moves_cong)
    with here rest show ?case
      by (simp only: item plan_moves_Cons plan_taken_Cons) simp
  qed
  from both show "plan_moves date run_date x items = plan_moves date run_date db items"
    by (rule conjunct1)
  from both show "plan_taken date run_date x items = plan_taken date run_date db items"
    by (intro ext) simp
qed

lemma deduct_plan_closed:
  assumes "pk_batches db" and "distinct (map fst items)"
    and "deduct_plan date run_date items db = Inr db'"
  shows "db' = db\<lparr>batches := adjust (plan_taken date run_date db items) (batches db),
                  stock_moves := stock_moves db @ plan_moves date run_date db items\<rparr>"
  using assms
proof (induction items arbitrary: db)
  case Nil
  then show ?case by (simp add: plan_moves_def plan_taken_def[abs_def])
next
  case (Cons item items)
  obtain m n where item: "item = (m, n)" by (cases item)
  from Cons.prems(3) obtain db1 where
    first: "deduct_item date run_date m n db = Inr db1"
    and rest: "deduct_plan date run_date items db1 = Inr db'"
    by (auto simp: item split: sum.splits)
  note db1 = deduct_item_Inr[OF first]
  have pk1: "pk_batches db1" using Cons.prems(1) by (simp add: db1)
  have d: "distinct (map fst items)" and notin: "m \<notin> fst ` set items"
    using Cons.prems(2) by (simp_all add: item)
  have same: "candidates date run_date m' db1 = candidates date run_date m' db"
    if "m' \<in> fst ` set items" for m'
    unfolding db1 using Cons.prems(1) that notin
    by (intro candidates_item_result_other) auto
  note cong = plan_other_cong[of items date run_date db1 db, OF same]
  from Cons.IH[OF pk1 d rest]
  have "db' = db1\<lparr>batches := adjust (plan_taken date run_date db items) (batches db1),
                   stock_moves := stock_moves db1 @ plan_moves date run_date db items\<rparr>"
    by (simp only: cong)
  then show ?case
    by (simp add: db1 item item_result_def adjust_adjust plan_moves_Cons plan_taken_Cons[abs_def])
qed

lemma distinct_plan: "pk_daily_dosage db \<Longrightarrow> distinct (map fst (plan db))"
proof -
  assume "pk_daily_dosage db"
  then have "distinct (map fst (v_daily_units db))"
    by (simp add: pk_daily_dosage_def v_daily_units_def comp_def)
  then show ?thesis
    unfolding plan_def by (rule distinct_map_filter)
qed

text \<open>The database that a committed run leaves, in terms of the database it started from.\<close>

lemma main_closed:
  assumes "pk_batches db" and "pk_daily_dosage db"
    and "main date force run_date db = (Committed, db')"
  shows "batches db' = adjust (plan_taken date run_date db (plan db))
                              (batches (scrapped date run_date db))"
    and "appended db db' = map (expired_move run_date) (to_scrap date run_date db)
                           @ plan_moves date run_date db (plan db)"
    and "medicines db' = medicines db" and "daily_dosage db' = daily_dosage db"
proof -
  let ?s = "scrapped date run_date db"
  note run = main_Committed[OF assms(3)]
  have pk: "pk_batches ?s"
    using assms(1) by (simp add: pk_batches_def scrapped_def comp_def if_distrib cong: if_cong)
  note cong = plan_other_cong[of "plan db" date run_date ?s db,
      OF candidates_scrapped[OF assms(1)]]
  from deduct_plan_closed[OF pk distinct_plan[OF assms(2)] run(3)]
  have closed: "db' = ?s\<lparr>batches := adjust (plan_taken date run_date db (plan db)) (batches ?s),
                          stock_moves := stock_moves ?s @ plan_moves date run_date db (plan db)\<rparr>"
    by (simp only: cong)
  have b: "batches db' = adjust (plan_taken date run_date db (plan db)) (batches ?s)"
    by (subst closed) simp
  have m: "stock_moves db' = stock_moves ?s @ plan_moves date run_date db (plan db)"
    by (subst closed) simp
  have f: "medicines db' = medicines ?s" "daily_dosage db' = daily_dosage ?s"
    by (subst closed, simp)+
  show "batches db' = adjust (plan_taken date run_date db (plan db)) (batches ?s)"
    by (rule b)
  have "stock_moves db' = stock_moves db @ (map (expired_move run_date) (to_scrap date run_date db)
                           @ plan_moves date run_date db (plan db))"
    unfolding m by (simp add: scrapped_def)
  then show "appended db db' = map (expired_move run_date) (to_scrap date run_date db)
                           @ plan_moves date run_date db (plan db)"
    by (rule appended_append)
  show "medicines db' = medicines db" "daily_dosage db' = daily_dosage db"
    unfolding f by (simp_all add: scrapped_def)
qed

lemma deduct_plan_ok:
  assumes "pk_batches db" and "\<forall>(m, n) \<in> set items. m \<in> set (medicines db)"
  shows "\<exists>db'. deduct_plan date run_date items db = Inr db'"
  using assms
proof (induction items arbitrary: db)
  case Nil
  then show ?case by simp
next
  case (Cons item items)
  obtain m n where item: "item = (m, n)" by (cases item)
  let ?db1 = "item_result date run_date m n db"
  have first: "deduct_item date run_date m n db = Inr ?db1"
    using Cons.prems by (intro deduct_item_ok) (auto simp: item)
  have "\<exists>db'. deduct_plan date run_date items ?db1 = Inr db'"
    using Cons.prems by (intro Cons.IH) auto
  with first show ?case by (simp add: item)
qed

text \<open>A run that the guard lets pass commits when the foreign keys of the schema hold.\<close>

lemma main_commits:
  assumes "pk_batches db" and "fk_batches db" and "fk_daily_dosage db"
    and "\<not> (already_ran_for date db run_date \<and> \<not> force)"
  shows "\<exists>db'. main date force run_date db = (Committed, db')"
proof -
  let ?s = "scrapped date run_date db"
  have pk: "pk_batches ?s"
    using assms(1) by (simp add: pk_batches_def scrapped_def comp_def if_distrib cong: if_cong)
  have "\<forall>(m, n) \<in> set (plan db). m \<in> set (medicines ?s)"
    using assms(3)
    by (auto simp: fk_daily_dosage_def list_all_iff plan_def v_daily_units_def scrapped_def)
  from deduct_plan_ok[OF pk this, of date run_date]
  obtain db' where "deduct_plan date run_date (plan db) ?s = Inr db'" by blast
  with scrap_expired_fk[OF assms(2), of date run_date] assms(4)
  show ?thesis by (auto simp: main_def fefo_deduct_plan)
qed

section \<open>Deductions in FEFO order\<close>

subsection \<open>The deductions of the inner loop\<close>

declare takes.simps(2) [simp del]

lemma takes_append:
  "takes (xs @ ys) remaining
   = takes xs remaining @ takes ys (remaining - sum_list (map snd (takes xs remaining)))"
proof (induction xs arbitrary: remaining)
  case Nil
  show ?case by simp
next
  case (Cons row xs)
  obtain bid stock where row: "row = (bid, stock)" by (cases row)
  show ?case
  proof (cases "remaining \<le> 0")
    case True
    then show ?thesis by (simp add: takes_break)
  next
    case pos: False
    show ?thesis
    proof (cases "min stock remaining \<le> 0")
      case True
      show ?thesis
        unfolding row append_Cons takes_continue[OF pos True] by (rule Cons.IH)
    next
      case False
      show ?thesis
        unfolding row append_Cons takes_take[OF pos False]
        by (simp add: Cons.IH algebra_simps)
    qed
  qed
qed

lemma takes_nonempty: "takes rows remaining \<noteq> [] \<Longrightarrow> 0 < remaining"
  by (rule ccontr) (simp add: takes_break)

lemma sum_stocks_nonneg:
  "\<forall>(b, s) \<in> set rows. (0::real) < s \<Longrightarrow> 0 \<le> sum_list (map snd rows)"
  by (induction rows) (auto intro: add_nonneg_nonneg)

lemma takes_sum:
  assumes "\<forall>(b, s) \<in> set rows. (0::real) < s" and "0 \<le> remaining"
  shows "sum_list (map snd (takes rows remaining)) = min remaining (sum_list (map snd rows))"
  using assms
proof (induction rows arbitrary: remaining)
  case Nil
  then show ?case by simp
next
  case (Cons row rows)
  obtain bid stock where row: "row = (bid, stock)" by (cases row)
  from Cons.prems(1) have s: "0 < stock" and rest: "\<forall>(b, s) \<in> set rows. 0 < s"
    by (simp_all add: row)
  note nonneg = sum_stocks_nonneg[OF rest]
  show ?case
  proof (cases "remaining \<le> 0")
    case True
    with Cons.prems(2) have "remaining = 0" by simp
    with nonneg s show ?thesis by (simp add: row takes_break)
  next
    case pos: False
    with s have taken: "\<not> min stock remaining \<le> 0" by simp
    have "0 \<le> remaining - min stock remaining" by simp
    from Cons.IH[OF rest this]
    have "sum_list (map snd (takes rows (remaining - min stock remaining)))
          = min (remaining - min stock remaining) (sum_list (map snd rows))" .
    with nonneg show ?thesis
      unfolding row takes_take[OF pos taken] by (simp add: min_def)
  qed
qed

text \<open>
  A batch later in the fetched order is drawn on only after every batch before it has
  been emptied.
\<close>

lemma takes_in_order:
  assumes "distinct (map fst (xs @ (i, si) # ys))" and "\<forall>(b, s) \<in> set (xs @ (i, si) # ys). 0 < s"
    and "j \<in> fst ` set ys" and "0 < taken_of (takes (xs @ (i, si) # ys) remaining) j"
  shows "taken_of (takes (xs @ (i, si) # ys) remaining) i = si"
proof -
  let ?r1 = "remaining - sum_list (map snd (takes xs remaining))"
  from assms(1,3) have j_xs: "j \<notin> fst ` set xs" and i_xs: "i \<notin> fst ` set xs"
    and i_ys: "i \<notin> fst ` set ys" and ji: "j \<noteq> i"
    by auto
  from assms(2) have si: "0 < si" by simp
  have split: "takes (xs @ (i, si) # ys) remaining = takes xs remaining @ takes ((i, si) # ys) ?r1"
    by (rule takes_append)
  from assms(4) have pos_j: "0 < taken_of (takes ((i, si) # ys) ?r1) j"
    by (simp add: split taken_of_append taken_of_takes_notin[OF j_xs])
  then have "takes ((i, si) # ys) ?r1 \<noteq> []" by (rule_tac notI) simp
  then have r1: "\<not> ?r1 \<le> 0" by (metis takes_break)
  with si have taken: "\<not> min si ?r1 \<le> 0" by simp
  note here = takes_take[OF r1 taken, of i ys]
  from pos_j ji have "0 < taken_of (takes ys (?r1 - min si ?r1)) j"
    by (simp add: here taken_of_Cons)
  then have "takes ys (?r1 - min si ?r1) \<noteq> []" by (rule_tac notI) simp
  then have "0 < ?r1 - min si ?r1" by (rule takes_nonempty)
  then have full: "min si ?r1 = si" by (simp add: min_def split: if_splits)
  show ?thesis
    unfolding split taken_of_append here taken_of_Cons
    by (simp add: full taken_of_takes_notin[OF i_xs] taken_of_takes_notin[OF i_ys])
qed

lemma taken_of_takes_bounds:
  assumes "distinct (map fst rows)" and "(i, s) \<in> set rows" and "0 \<le> s"
  shows "0 \<le> taken_of (takes rows remaining) i \<and> taken_of (takes rows remaining) i \<le> s"
  using assms
proof (induction rows arbitrary: remaining)
  case Nil
  then show ?case by simp
next
  case (Cons row rows)
  obtain bid stock where row: "row = (bid, stock)" by (cases row)
  show ?case
  proof (cases "remaining \<le> 0")
    case True
    with Cons.prems(3) show ?thesis by (simp add: takes_break)
  next
    case pos: False
    show ?thesis
    proof (cases "min stock remaining \<le> 0")
      case True
      show ?thesis
      proof (cases "(i, s) \<in> set rows")
        case True
        with Cons.prems show ?thesis
          unfolding row takes_continue[OF pos \<open>min stock remaining \<le> 0\<close>]
          by (intro Cons.IH) simp_all
      next
        case False
        with Cons.prems(1,2) have "i \<notin> fst ` set rows" by (force simp: row)
        with Cons.prems(3) show ?thesis
          unfolding row takes_continue[OF pos True] by (simp add: taken_of_takes_notin)
      qed
    next
      case False
      show ?thesis
      proof (cases "i = bid")
        case True
        with Cons.prems(1,2) have "s = stock" "i \<notin> fst ` set rows" by (force simp: row)+
        with True False pos show ?thesis
          unfolding row takes_take[OF pos False] taken_of_Cons
          by (simp add: taken_of_takes_notin)
      next
        case ne: False
        with Cons.prems(2) have "(i, s) \<in> set rows" by (simp add: row)
        with Cons.prems(1,3) have "0 \<le> taken_of (takes rows (remaining - min stock remaining)) i
          \<and> taken_of (takes rows (remaining - min stock remaining)) i \<le> s"
          by (intro Cons.IH) simp_all
        with ne show ?thesis
          unfolding row takes_take[OF pos False] taken_of_Cons by simp
      qed
    qed
  qed
qed

subsection \<open>The fetched rows\<close>

lemma sum_list_map_insort_key:
  "sum_list (map g (insort_key k x xs)) = (g x :: real) + sum_list (map g xs)"
  by (induction xs) simp_all

lemma sum_list_map_sort_key:
  "sum_list (map g (sort_key k xs)) = (sum_list (map g xs) :: real)"
  by (induction xs) (simp_all add: sum_list_map_insort_key)

lemma candidates_available:
  "sum_list (map snd (candidates date run_date med_id db)) = available date run_date med_id db"
  by (simp add: candidates_def fefo_batches_def available_def comp_def sum_list_map_sort_key)

lemma candidates_positive:
  "\<forall>(b, s) \<in> set (candidates date run_date med_id db). 0 < s"
  by (auto simp: candidates_def fefo_batches_def eligible_def)

lemma item_takes_sum:
  "0 \<le> need \<Longrightarrow>
     sum_list (map snd (takes (candidates date run_date med_id db) need))
     = min need (available date run_date med_id db)"
  using takes_sum[OF candidates_positive, of need date run_date med_id db]
  by (simp add: candidates_available)

lemma fefo_before_key:
  assumes "eligible date run_date med_id b1" and "eligible date run_date med_id b2"
  shows "fefo_before date b1 b2 \<longleftrightarrow> fefo_key date b1 < fefo_key date b2"
proof -
  have dated: "expiry_date b \<noteq> None \<Longrightarrow> \<exists>d. expiry date b = Some d"
    if "eligible date run_date med_id b" for b
    using that by (auto simp: eligible_def sql_ge_def split: option.splits)
  have null: "expiry_date b = None \<Longrightarrow> expiry date b = None" for b
    by (simp add: expiry_def)
  show ?thesis
  proof (cases "expiry_date b1 = None")
    case n1: True
    show ?thesis
    proof (cases "expiry_date b2 = None")
      case True
      with n1 show ?thesis
        by (simp add: fefo_before_def fefo_key_def null less_prod_def)
    next
      case False
      with n1 show ?thesis
        by (auto simp: fefo_before_def fefo_key_def less_prod_def)
    qed
  next
    case d1: False
    from dated[OF assms(1) d1] obtain x where x: "expiry date b1 = Some x" ..
    show ?thesis
    proof (cases "expiry_date b2 = None")
      case True
      with d1 show ?thesis
        by (auto simp: fefo_before_def fefo_key_def less_prod_def)
    next
      case False
      from dated[OF assms(2) False] obtain y where y: "expiry date b2 = Some y" ..
      from d1 False x y show ?thesis
        by (auto simp: fefo_before_def fefo_key_def less_prod_def sql_lt_def sql_eq_def)
    qed
  qed
qed

lemma sorted_earlier:
  assumes "sorted (map k cs)" and "x \<in> set cs" and "y \<in> set cs" and "k x < k y"
  shows "\<exists>xs ys zs. cs = xs @ x # ys @ y # zs"
proof -
  from assms(2) obtain xs rest where cs: "cs = xs @ x # rest"
    by (auto simp: in_set_conv_decomp)
  from assms(4) have "y \<noteq> x" by auto
  have "y \<notin> set xs"
  proof
    assume "y \<in> set xs"
    with assms(1) have "k y \<le> k x"
      by (auto simp: cs sorted_append)
    with assms(4) show False by simp
  qed
  with assms(3) \<open>y \<noteq> x\<close> have "y \<in> set rest" by (simp add: cs)
  then obtain ys zs where "rest = ys @ y # zs"
    by (auto simp: in_set_conv_decomp)
  with cs have "cs = xs @ x # ys @ y # zs" by simp
  then show ?thesis by blast
qed


subsection \<open>What the movements of a run consume\<close>

lemma consumed_append: "consumed (xs @ ys) med_id = consumed xs med_id + consumed ys med_id"
  by (simp add: consumed_def)

lemma consumed_expired: "consumed (map (expired_move run_date) rows) med_id = 0"
  by (induction rows) (auto simp: consumed_def expired_move_def)

lemma consumed_doses:
  "consumed (map (dose_move run_date m) tk) med_id = (if m = med_id then sum_list (map snd tk) else 0)"
  by (induction tk) (auto simp: consumed_def dose_move_def)

lemma consumed_item:
  "consumed (item_moves date run_date m n db) med_id
   = (if m = med_id then sum_list (map snd (takes (candidates date run_date m db) n)) else 0)"
  by (simp add: item_moves_def Let_def consumed_append consumed_doses)
     (simp add: consumed_def shortfall_move_def)

lemma consumed_plan_other:
  "med_id \<notin> fst ` set items \<Longrightarrow> consumed (plan_moves date run_date db items) med_id = 0"
proof (induction items)
  case Nil
  show ?case by (simp add: plan_moves_def consumed_def)
next
  case (Cons item items)
  obtain m n where item: "item = (m, n)" by (cases item)
  from Cons show ?case
    by (auto simp: item plan_moves_Cons consumed_append consumed_item)
qed

lemma consumed_plan:
  assumes "distinct (map fst items)" and "(med_id, need) \<in> set items"
  shows "consumed (plan_moves date run_date db items) med_id
         = sum_list (map snd (takes (candidates date run_date med_id db) need))"
  using assms
proof (induction items)
  case Nil
  then show ?case by simp
next
  case (Cons item items)
  obtain m n where item: "item = (m, n)" by (cases item)
  show ?case
  proof (cases "m = med_id")
    case True
    with Cons.prems have "med_id \<notin> fst ` set items" by (simp add: item)
    moreover from this Cons.prems(2) True have "n = need" by (force simp: item)
    ultimately show ?thesis
      using True by (simp add: item plan_moves_Cons consumed_append consumed_item consumed_plan_other)
  next
    case False
    with Cons.prems have "distinct (map fst items)" "(med_id, need) \<in> set items"
      by (simp_all add: item)
    from Cons.IH[OF this] False show ?thesis
      by (simp add: item plan_moves_Cons consumed_append consumed_item)
  qed
qed

lemma plan_taken_none:
  assumes "pk_batches db" and "b \<in> set (batches db)"
    and "\<forall>(m, n) \<in> set items. \<not> eligible date run_date m b"
  shows "plan_taken date run_date db items (batch_id b) = 0"
  using assms(3)
proof (induction items)
  case Nil
  show ?case by (simp add: plan_taken_def)
next
  case (Cons item items)
  obtain m n where item: "item = (m, n)" by (cases item)
  from Cons.prems have "\<not> eligible date run_date m b" by (simp add: item)
  from taken_ineligible[OF assms(1,2) this] Cons show ?case
    by (simp add: item plan_taken_Cons)
qed

lemma plan_taken_eligible:
  assumes "pk_batches db" and "b \<in> set (batches db)" and "distinct (map fst items)"
    and "(med_id, need) \<in> set items" and "medicine_id b = med_id"
  shows "plan_taken date run_date db items (batch_id b)
         = taken_of (takes (candidates date run_date med_id db) need) (batch_id b)"
  using assms(3,4)
proof (induction items)
  case Nil
  then show ?case by simp
next
  case (Cons item items)
  obtain m n where item: "item = (m, n)" by (cases item)
  show ?case
  proof (cases "m = med_id")
    case True
    with Cons.prems have notin: "med_id \<notin> fst ` set items" by (simp add: item)
    with Cons.prems(2) True have n: "n = need" by (force simp: item)
    have "\<forall>(m, n) \<in> set items. \<not> eligible date run_date m b"
      using notin assms(5) by (force simp: eligible_def)
    from plan_taken_none[OF assms(1,2) this] True n show ?thesis
      by (simp add: item plan_taken_Cons)
  next
    case False
    with Cons.prems have "distinct (map fst items)" "(med_id, need) \<in> set items"
      by (simp_all add: item)
    from Cons.IH[OF this] False assms(5)
      taken_ineligible[OF assms(1,2), of date run_date m n]
    show ?thesis
      by (simp add: item plan_taken_Cons eligible_def)
  qed
qed

lemma scrapped_nth_eligible:
  assumes "pk_batches db" and "i < length (batches db)"
    and "eligible date run_date med_id (batches db ! i)"
  shows "batches (scrapped date run_date db) ! i = batches db ! i"
  using scrapped_nth[OF assms(1,2), of date run_date] not_scrapped_eligible[OF assms(3)]
  by simp

lemma length_scrapped [simp]:
  "length (batches (scrapped date run_date db)) = length (batches db)"
  by (simp add: scrapped_def)

lemma medicine_id_scrapped:
  "i < length (batches db) \<Longrightarrow>
     medicine_id (batches (scrapped date run_date db) ! i) = medicine_id (batches db ! i)
     \<and> batch_id (batches (scrapped date run_date db) ! i) = batch_id (batches db ! i)"
  by (simp add: scrapped_def)

text \<open>What a committed run leaves in a batch that allocation could draw on.\<close>

lemma final_stock_eligible:
  assumes "pk_batches db" and "pk_daily_dosage db"
    and "main date force run_date db = (Committed, db')"
    and "(med_id, need) \<in> set (plan db)" and "i < length (batches db)"
    and "eligible date run_date med_id (batches db ! i)"
  shows "batches db' ! i = (batches db ! i)\<lparr>stock_units := stock_units (batches db ! i)
           - taken_of (takes (candidates date run_date med_id db) need) (batch_id (batches db ! i))\<rparr>"
proof -
  let ?b = "batches db ! i"
  have mem: "?b \<in> set (batches db)" using assms(5) by simp
  have med: "medicine_id ?b = med_id" using assms(6) by (simp add: eligible_def)
  note taken = plan_taken_eligible[OF assms(1) mem distinct_plan[OF assms(2)] assms(4) med,
      of date run_date]
  show ?thesis
    unfolding main_closed(1)[OF assms(1-3)]
    using assms(5) scrapped_nth_eligible[OF assms(1,5,6)]
    by (simp add: adjust_nth taken)
qed

section \<open>The idempotency guard\<close>

lemma already_ran_for_iff:
  "already_ran_for date db run_date \<longleftrightarrow>
     (\<exists>m \<in> set (stock_moves db). reason m = ''daily_dose''
        \<and> (\<exists>d. date (ts m) = Some d \<and> date run_date = Some d))"
  by (auto simp: already_ran_for_def list_ex_iff sql_eq_def split: option.splits)

lemma main_Skipped:
  "already_ran_for date db run_date \<Longrightarrow> main date False run_date db = (Skipped, db)"
  by (simp add: main_def)

text \<open>
  C2, as the code has it. The guard looks for a \<open>daily_dose\<close> movement whose timestamp
  \<^verbatim>\<open>date()\<close> reads as the day of the run date: \<open>already_ran_for\<close> holds exactly when the
  log has one, and a run that it refuses returns \<open>Skipped\<close> with the database untouched.
  So a second run without \<open>force\<close> is skipped once the first run has logged a consumption,
  provided \<^verbatim>\<open>date()\<close> reads the run date and the timestamp \<open>run_date @ '' 20:00:00''\<close>
  that the run stamps as the same day.
\<close>

theorem rerun_skipped_after_consumption:
  "(main date force run_date db = (Committed, db')
      \<and> list_ex (\<lambda>m. reason m = ''daily_dose'') (appended db db')
      \<and> date (run_date @ '' 20:00:00'') = Some d \<and> date run_date = Some d
      \<longrightarrow> main date False run_date db' = (Skipped, db'))
   \<and> (date run_date = Some d
      \<longrightarrow> (\<forall>x. already_ran_for date x run_date \<longleftrightarrow>
                (\<exists>m \<in> set (stock_moves x). reason m = ''daily_dose'' \<and> date (ts m) = Some d)))
   \<and> (\<forall>x. already_ran_for date x run_date \<longrightarrow> main date False run_date x = (Skipped, x))"
proof (intro conjI impI allI)
  assume run: "main date force run_date db = (Committed, db')
      \<and> list_ex (\<lambda>m. reason m = ''daily_dose'') (appended db db')
      \<and> date (run_date @ '' 20:00:00'') = Some d \<and> date run_date = Some d"
  then obtain m where m: "m \<in> set (appended db db')" "reason m = ''daily_dose''"
    by (auto simp: list_ex_iff)
  from run have committed: "main date force run_date db = (Committed, db')" by simp
  from main_appends[OF committed] m(1)
  have "m \<in> set (stock_moves db')" and "ts m = log_ts run_date"
    by (metis Un_iff set_append, blast)
  with m(2) run have "already_ran_for date db' run_date"
    unfolding already_ran_for_iff by (auto simp: log_ts_def)
  then show "main date False run_date db' = (Skipped, db')"
    by (rule main_Skipped)
next
  fix x
  assume "date run_date = Some d"
  then show "already_ran_for date x run_date \<longleftrightarrow>
                (\<exists>m \<in> set (stock_moves x). reason m = ''daily_dose'' \<and> date (ts m) = Some d)"
    by (simp add: already_ran_for_iff)
next
  fix x
  assume "already_ran_for date x run_date"
  then show "main date False run_date x = (Skipped, x)" by (rule main_Skipped)
qed

theorem rerun_not_skipped_without_consumption:
  "main iso_date False ''2024-03-01'' clinic
     = (Committed, snd (main iso_date False ''2024-03-01'' clinic))
   \<and> fst (main iso_date False ''2024-03-01'' (snd (main iso_date False ''2024-03-01'' clinic)))
     = Committed
   \<and> snd (main iso_date False ''2024-03-01'' (snd (main iso_date False ''2024-03-01'' clinic)))
     \<noteq> snd (main iso_date False ''2024-03-01'' clinic)
   \<and> iso_date ''2024-01-05 10:00'' = Some 20240105
   \<and> main iso_date False ''2024-01-05 10:00'' clinic
     = (Committed, snd (main iso_date False ''2024-01-05 10:00'' clinic))
   \<and> map reason (appended clinic (snd (main iso_date False ''2024-01-05 10:00'' clinic)))
     = [''daily_dose'', ''daily_dose'']
   \<and> fst (main iso_date False ''2024-01-05 10:00''
            (snd (main iso_date False ''2024-01-05 10:00'' clinic)))
     = Committed
   \<and> map stock_units (batches (snd (main iso_date False ''2024-01-05 10:00''
            (snd (main iso_date False ''2024-01-05 10:00'' clinic)))))
     = [0, 0, 5, 0]"
  by (simp add: run_defs clinic_def appended_def)

theorem rerun_skipped_after_consumption_witness:
  "main iso_date False ''2024-01-05'' clinic
     = (Committed, snd (main iso_date False ''2024-01-05'' clinic))
   \<and> list_ex (\<lambda>m. reason m = ''daily_dose'')
        (appended clinic (snd (main iso_date False ''2024-01-05'' clinic)))
   \<and> iso_date (''2024-01-05'' @ '' 20:00:00'') = Some 20240105
   \<and> iso_date ''2024-01-05'' = Some 20240105
   \<and> main iso_date False ''2024-01-05'' (snd (main iso_date False ''2024-01-05'' clinic))
     = (Skipped, snd (main iso_date False ''2024-01-05'' clinic))"
proof -
  have a: "main iso_date False ''2024-01-05'' clinic
     = (Committed, snd (main iso_date False ''2024-01-05'' clinic))"
    by (simp add: run_defs clinic_def)
  have b: "list_ex (\<lambda>m. reason m = ''daily_dose'')
        (appended clinic (snd (main iso_date False ''2024-01-05'' clinic)))"
    by (simp add: run_defs clinic_def appended_def)
  have c: "iso_date (''2024-01-05'' @ '' 20:00:00'') = Some 20240105"
    by (simp add: iso_date_def time_ok_def digit_val_def)
  have d: "iso_date ''2024-01-05'' = Some 20240105"
    by (simp add: iso_date_def time_ok_def digit_val_def)
  from rerun_skipped_after_consumption[of iso_date False "''2024-01-05''" clinic
      "snd (main iso_date False ''2024-01-05'' clinic)" 20240105] a b c d
  show ?thesis by blast
qed

section \<open>The items of the plan\<close>

lemma fefo_batches_sorted:
  "sorted (map (fefo_key date) (fefo_batches date run_date med_id db))"
  by (simp add: fefo_batches_def)

lemma fefo_batches_set:
  "set (fefo_batches date run_date med_id db)
   = {b \<in> set (batches db). eligible date run_date med_id b}"
  by (auto simp: fefo_batches_def)

lemma sum_list_single_key:
  "distinct (map fst rows) \<Longrightarrow> b \<in> fst ` set rows \<Longrightarrow>
     sum_list (map (\<lambda>r. if fst r = b then t else 0) rows) = (t::real)"
proof (induction rows)
  case Nil
  then show ?case by simp
next
  case (Cons r rows)
  show ?case
  proof (cases "fst r = b")
    case True
    from Cons.prems(1) have "fst r \<notin> fst ` set rows" by simp
    with True have "\<forall>x \<in> set rows. fst x \<noteq> b" by (metis image_eqI)
    then have "map (\<lambda>r. if fst r = b then t else 0) rows = map (\<lambda>r. 0) rows"
      by (intro map_cong) auto
    then have "sum_list (map (\<lambda>r. if fst r = b then t else 0) rows) = sum_list (map (\<lambda>r. 0) rows)"
      by (rule arg_cong)
    then have "sum_list (map (\<lambda>r. if fst r = b then t else 0) rows) = 0"
      by (simp only: sum_list_0)
    with True show ?thesis by simp
  next
    case False
    with Cons.prems have "distinct (map fst rows)" "b \<in> fst ` set rows" by auto
    from Cons.IH[OF this] False show ?thesis by simp
  qed
qed

lemma sum_taken_of_rows:
  "distinct (map fst rows) \<Longrightarrow> fst ` set tk \<subseteq> fst ` set rows \<Longrightarrow>
     sum_list (map (\<lambda>r. taken_of tk (fst r)) rows) = sum_list (map snd tk)"
proof (induction tk)
  case Nil
  show ?case by simp
next
  case (Cons x tk)
  obtain b t where x: "x = (b, t)" by (cases x)
  from Cons.prems have b: "b \<in> fst ` set rows" and rest: "fst ` set tk \<subseteq> fst ` set rows"
    by (auto simp: x)
  have "sum_list (map (\<lambda>r. taken_of (x # tk) (fst r)) rows)
        = sum_list (map (\<lambda>r. if fst r = b then t else 0) rows)
          + sum_list (map (\<lambda>r. taken_of tk (fst r)) rows)"
    by (simp add: x taken_of_Cons sum_list_addf)
  with sum_list_single_key[OF Cons.prems(1) b, of t] Cons.IH[OF Cons.prems(1) rest]
  show ?case by (simp add: x)
qed

lemma takes_fst_subset: "fst ` set (takes rows remaining) \<subseteq> fst ` set rows"
  by (auto dest: takes_fst)

lemma zip_map_self: "zip xs (map f xs) = map (\<lambda>x. (x, f x)) xs"
  by (induction xs) simp_all

text \<open>A committed run, item by item of its plan.\<close>

lemma run_consumed:
  assumes "pk_batches db" and "pk_daily_dosage db"
    and "main date force run_date db = (Committed, db')"
    and "(med_id, need) \<in> set (plan db)"
  shows "consumed (appended db db') med_id = min need (available date run_date med_id db)"
proof -
  from assms(4) have pos: "0 < need" by (auto simp: plan_def)
  have "consumed (appended db db') med_id
        = sum_list (map snd (takes (candidates date run_date med_id db) need))"
    unfolding main_closed(2)[OF assms(1-3)]
    by (simp add: consumed_append consumed_expired consumed_plan[OF distinct_plan[OF assms(2)] assms(4)])
  also have "\<dots> = min need (available date run_date med_id db)"
    using pos by (intro item_takes_sum) simp
  finally show ?thesis .
qed

lemma run_drawn:
  assumes "pk_batches db" and "pk_daily_dosage db"
    and "main date force run_date db = (Committed, db')"
    and "(med_id, need) \<in> set (plan db)"
  shows "drawn (eligible date run_date med_id) db db' = min need (available date run_date med_id db)"
proof -
  let ?rows = "candidates date run_date med_id db"
  let ?tk = "takes ?rows need"
  let ?E = "eligible date run_date med_id"
  let ?T = "plan_taken date run_date db (plan db)"
  let ?g = "\<lambda>b. if batch_id b \<in> set (map fst (to_scrap date run_date db))
                  then b\<lparr>stock_units := 0\<rparr> else b"
  let ?h = "\<lambda>b. (?g b)\<lparr>stock_units := stock_units (?g b) - ?T (batch_id (?g b))\<rparr>"
  from assms(4) have pos: "0 < need" by (auto simp: plan_def)
  have after: "batches db' = map ?h (batches db)"
    unfolding main_closed(1)[OF assms(1-3)] by (simp add: scrapped_def adjust_def)
  have each: "stock_units b - stock_units (?h b) = taken_of ?tk (batch_id b)"
    if "b \<in> set (batches db)" and "?E b" for b
  proof -
    from scrap_ids[OF assms(1) that(1), of date run_date] not_scrapped_eligible[OF that(2)]
    have "?g b = b" by auto
    moreover have "medicine_id b = med_id" using that(2) by (simp add: eligible_def)
    note plan_taken_eligible[OF assms(1) that(1) distinct_plan[OF assms(2)] assms(4) this,
        of date run_date]
    ultimately show ?thesis by simp
  qed
  have eq: "map (\<lambda>b. stock_units b - stock_units (?h b)) (filter ?E (batches db))
             = map (\<lambda>b. taken_of ?tk (batch_id b)) (filter ?E (batches db))"
  proof (rule map_cong[OF refl])
    fix b assume "b \<in> set (filter ?E (batches db))"
    then have "b \<in> set (batches db)" "?E b" by simp_all
    then show "stock_units b - stock_units (?h b) = taken_of ?tk (batch_id b)"
      by (rule each)
  qed
  have "drawn ?E db db'
        = sum_list (map (\<lambda>b. stock_units b - stock_units (?h b)) (filter ?E (batches db)))"
    unfolding drawn_def after zip_map_self by (simp add: filter_map comp_def)
  also have "\<dots> = sum_list (map (\<lambda>b. taken_of ?tk (batch_id b)) (filter ?E (batches db)))"
    by (simp only: eq)
  also have "\<dots> = sum_list (map (\<lambda>r. taken_of ?tk (fst r)) ?rows)"
    by (simp add: candidates_def fefo_batches_def comp_def sum_list_map_sort_key)
  also have "\<dots> = sum_list (map snd ?tk)"
    using candidates_rows(1)[OF assms(1)] takes_fst_subset by (rule sum_taken_of_rows)
  also have "\<dots> = min need (available date run_date med_id db)"
    using pos by (intro item_takes_sum) simp
  finally show ?thesis .
qed

lemma run_fefo_order:
  assumes "pk_batches db" and "pk_daily_dosage db"
    and "main date force run_date db = (Committed, db')"
    and "(med_id, need) \<in> set (plan db)"
    and i: "i < length (batches db)" and j: "j < length (batches db)"
    and ei: "eligible date run_date med_id (batches db ! i)"
    and ej: "eligible date run_date med_id (batches db ! j)"
    and before: "fefo_before date (batches db ! i) (batches db ! j)"
    and taken: "stock_units (batches db' ! j) < stock_units (batches db ! j)"
  shows "stock_units (batches db' ! i) = 0"
proof -
  let ?rows = "candidates date run_date med_id db"
  let ?tk = "takes ?rows need"
  let ?bi = "batches db ! i" and ?bj = "batches db ! j"
  let ?cs = "fefo_batches date run_date med_id db"
  let ?row = "\<lambda>b. (batch_id b, stock_units b)"
  note fi = final_stock_eligible[OF assms(1-4) i ei]
  note fj = final_stock_eligible[OF assms(1-4) j ej]
  from taken have taken': "0 < taken_of ?tk (batch_id ?bj)" by (simp add: fj)
  have "?bi \<in> set ?cs" "?bj \<in> set ?cs"
    using i j ei ej by (simp_all add: fefo_batches_set)
  moreover have "fefo_key date ?bi < fefo_key date ?bj"
    using before fefo_before_key[OF ei ej] by simp
  ultimately obtain xs ys zs where cs: "?cs = xs @ ?bi # ys @ ?bj # zs"
    using sorted_earlier[OF fefo_batches_sorted] by blast
  have rows: "?rows = map ?row xs @ (batch_id ?bi, stock_units ?bi) # (map ?row ys @ ?row ?bj # map ?row zs)"
    by (simp add: candidates_def cs)
  have "taken_of (takes (map ?row xs @ (batch_id ?bi, stock_units ?bi) # (map ?row ys @ ?row ?bj # map ?row zs)) need)
          (batch_id ?bi) = stock_units ?bi"
  proof (rule takes_in_order)
    show "distinct (map fst (map ?row xs @ (batch_id ?bi, stock_units ?bi) # (map ?row ys @ ?row ?bj # map ?row zs)))"
      using candidates_rows(1)[OF assms(1), of date run_date med_id] by (simp only: rows)
    show "\<forall>(b, s) \<in> set (map ?row xs @ (batch_id ?bi, stock_units ?bi) # (map ?row ys @ ?row ?bj # map ?row zs)). 0 < s"
      using candidates_positive[of date run_date med_id db] by (simp only: rows)
    show "batch_id ?bj \<in> fst ` set (map ?row ys @ ?row ?bj # map ?row zs)"
      by simp
    show "0 < taken_of (takes (map ?row xs @ (batch_id ?bi, stock_units ?bi) # (map ?row ys @ ?row ?bj # map ?row zs)) need) (batch_id ?bj)"
      using taken' by (simp only: rows)
  qed
  then have "taken_of ?tk (batch_id ?bi) = stock_units ?bi" by (simp only: rows)
  then show ?thesis by (simp add: fi)
qed


lemma shortfalls_append: "shortfalls (xs @ ys) med_id = shortfalls xs med_id @ shortfalls ys med_id"
  by (simp add: shortfalls_def)

lemma shortfalls_expired: "shortfalls (map (expired_move run_date) rows) med_id = []"
  by (induction rows) (auto simp: shortfalls_def expired_move_def)

lemma shortfalls_doses: "shortfalls (map (dose_move run_date m) tk) med_id = []"
  by (induction tk) (auto simp: shortfalls_def dose_move_def)

lemma shortfalls_item:
  "shortfalls (item_moves date run_date m n db) med_id
   = (if m = med_id \<and> 1 / 1000000 < n - sum_list (map snd (takes (candidates date run_date m db) n))
      then [shortfall_move run_date m
              (n - sum_list (map snd (takes (candidates date run_date m db) n)))]
      else [])"
  by (simp add: item_moves_def Let_def shortfalls_append shortfalls_doses)
     (simp add: shortfalls_def shortfall_move_def)

lemma shortfalls_plan_other:
  "med_id \<notin> fst ` set items \<Longrightarrow> shortfalls (plan_moves date run_date db items) med_id = []"
proof (induction items)
  case Nil
  show ?case by (simp add: plan_moves_def shortfalls_def)
next
  case (Cons item items)
  obtain m n where item: "item = (m, n)" by (cases item)
  from Cons show ?case
    by (auto simp: item plan_moves_Cons shortfalls_append shortfalls_item)
qed

lemma shortfalls_plan:
  assumes "distinct (map fst items)" and "(med_id, need) \<in> set items"
  shows "shortfalls (plan_moves date run_date db items) med_id
         = shortfalls (item_moves date run_date med_id need db) med_id"
  using assms
proof (induction items)
  case Nil
  then show ?case by simp
next
  case (Cons item items)
  obtain m n where item: "item = (m, n)" by (cases item)
  show ?case
  proof (cases "m = med_id")
    case True
    with Cons.prems have notin: "med_id \<notin> fst ` set items" by (simp add: item)
    with Cons.prems(2) True have "n = need" by (force simp: item)
    with True notin show ?thesis
      by (simp add: item plan_moves_Cons shortfalls_append shortfalls_plan_other)
  next
    case False
    with Cons.prems have "distinct (map fst items)" "(med_id, need) \<in> set items"
      by (simp_all add: item)
    from Cons.IH[OF this] False show ?thesis
      by (simp add: item plan_moves_Cons shortfalls_append shortfalls_item)
  qed
qed

lemma run_shortfalls:
  assumes "pk_batches db" and "pk_daily_dosage db"
    and "main date force run_date db = (Committed, db')"
    and "(med_id, need) \<in> set (plan db)"
  shows "shortfalls (appended db db') med_id
         = (if 1 / 1000000 < need - min need (available date run_date med_id db)
            then [shortfall_move run_date med_id (need - min need (available date run_date med_id db))]
            else [])"
proof -
  from assms(4) have pos: "0 \<le> need" by (auto simp: plan_def)
  show ?thesis
    unfolding main_closed(2)[OF assms(1-3)] shortfalls_append shortfalls_expired
      shortfalls_plan[OF distinct_plan[OF assms(2)] assms(4)] shortfalls_item
      item_takes_sum[OF pos]
    by simp
qed

text \<open>
  C1. An item of the plan whose eligible batches hold at least its need: the run logs
  consumption movements for exactly the need, exactly the need leaves the eligible
  batches of the item, and a batch is drawn on only after every eligible batch of the
  item that comes before it in FEFO order has been emptied.
\<close>

theorem fefo_consumes_need_in_order:
  assumes "pk_batches db" and "pk_daily_dosage db" and "fk_batches db" and "fk_daily_dosage db"
    and "\<not> (already_ran_for date db run_date \<and> \<not> force)"
    and "(med_id, need) \<in> set (plan db)"
    and "need \<le> available date run_date med_id db"
  shows "\<exists>db'. main date force run_date db = (Committed, db')
           \<and> consumed (appended db db') med_id = need
           \<and> drawn (eligible date run_date med_id) db db' = need
           \<and> (\<forall>i < length (batches db). \<forall>j < length (batches db).
                 eligible date run_date med_id (batches db ! i)
                 \<and> eligible date run_date med_id (batches db ! j)
                 \<and> fefo_before date (batches db ! i) (batches db ! j)
                 \<and> stock_units (batches db' ! j) < stock_units (batches db ! j)
                 \<longrightarrow> stock_units (batches db' ! i) = 0)"
proof -
  from main_commits[OF assms(1,3,4,5)] obtain db' where
    run: "main date force run_date db = (Committed, db')" by blast
  have "consumed (appended db db') med_id = need"
    using run_consumed[OF assms(1,2) run assms(6)] assms(7) by simp
  moreover have "drawn (eligible date run_date med_id) db db' = need"
    using run_drawn[OF assms(1,2) run assms(6)] assms(7) by simp
  moreover have "\<forall>i < length (batches db). \<forall>j < length (batches db).
                 eligible date run_date med_id (batches db ! i)
                 \<and> eligible date run_date med_id (batches db ! j)
                 \<and> fefo_before date (batches db ! i) (batches db ! j)
                 \<and> stock_units (batches db' ! j) < stock_units (batches db ! j)
                 \<longrightarrow> stock_units (batches db' ! i) = 0"
    using run_fefo_order[OF assms(1,2) run assms(6)] by blast
  ultimately show ?thesis using run by blast
qed

text \<open>
  C6. An item of the plan whose need exceeds the stock of its eligible batches by more
  than the tolerance: the run commits and logs exactly one shortfall movement for the
  item, with delta 0, no batch and the unmet quantity in its note; and every item of the
  plan has been served all the same, each with its need or with all that its eligible
  batches held.
\<close>

theorem shortfall_logged_once:
  assumes "pk_batches db" and "pk_daily_dosage db" and "fk_batches db" and "fk_daily_dosage db"
    and "\<not> (already_ran_for date db run_date \<and> \<not> force)"
    and "(med_id, need) \<in> set (plan db)"
    and "1 / 1000000 < need - available date run_date med_id db"
  shows "\<exists>db'. main date force run_date db = (Committed, db')
           \<and> filter (\<lambda>m. reason m = ''shortfall'' \<and> sm_medicine_id m = med_id) (appended db db')
             = [\<lparr>ts = run_date @ '' 20:00:00'', sm_medicine_id = med_id, sm_batch_id = None,
                 qty_change = 0, reason = ''shortfall'',
                 sm_note = Some (Needed (need - available date run_date med_id db) run_date)\<rparr>]
           \<and> (\<forall>(m, n) \<in> set (plan db).
                 consumed (appended db db') m = min n (available date run_date m db)
                 \<and> drawn (eligible date run_date m) db db' = min n (available date run_date m db))"
proof -
  from main_commits[OF assms(1,3,4,5)] obtain db' where
    run: "main date force run_date db = (Committed, db')" by blast
  from assms(7) have less: "min need (available date run_date med_id db)
                            = available date run_date med_id db" by simp
  have "shortfalls (appended db db') med_id
        = [shortfall_move run_date med_id (need - available date run_date med_id db)]"
    using run_shortfalls[OF assms(1,2) run assms(6)] assms(7) by (simp add: less)
  then have "filter (\<lambda>m. reason m = ''shortfall'' \<and> sm_medicine_id m = med_id) (appended db db')
             = [\<lparr>ts = run_date @ '' 20:00:00'', sm_medicine_id = med_id, sm_batch_id = None,
                 qty_change = 0, reason = ''shortfall'',
                 sm_note = Some (Needed (need - available date run_date med_id db) run_date)\<rparr>]"
    by (simp add: shortfalls_def shortfall_move_def log_ts_def)
  moreover have "\<forall>(m, n) \<in> set (plan db).
                 consumed (appended db db') m = min n (available date run_date m db)
                 \<and> drawn (eligible date run_date m) db db' = min n (available date run_date m db)"
    using run_consumed[OF assms(1,2) run] run_drawn[OF assms(1,2) run] by blast
  ultimately show ?thesis using run by blast
qed


lemmas store_defs =
  pk_batches_def pk_daily_dosage_def fk_batches_def fk_daily_dosage_def check_stock_def
  available_def

theorem fefo_consumes_need_in_order_witness:
  "pk_batches clinic \<and> pk_daily_dosage clinic \<and> fk_batches clinic \<and> fk_daily_dosage clinic
   \<and> \<not> (already_ran_for iso_date clinic ''2024-01-05'' \<and> \<not> False)
   \<and> (''A'', 60) \<in> set (plan clinic)
   \<and> 60 \<le> available iso_date ''2024-01-05'' ''A'' clinic
   \<and> (\<exists>db'. main iso_date False ''2024-01-05'' clinic = (Committed, db')
         \<and> consumed (appended clinic db') ''A'' = 60
         \<and> drawn (eligible iso_date ''2024-01-05'' ''A'') clinic db' = 60
         \<and> stock_units (batches db' ! 1) = 20
         \<and> stock_units (batches db' ! 0) = 0)"
proof -
  have pk: "pk_batches clinic" and pkd: "pk_daily_dosage clinic"
    and fk: "fk_batches clinic" and fkd: "fk_daily_dosage clinic"
    by (simp_all add: store_defs clinic_def)
  have guard: "\<not> (already_ran_for iso_date clinic ''2024-01-05'' \<and> \<not> False)"
    by (simp add: already_ran_for_def clinic_def)
  have item: "(''A'', 60) \<in> set (plan clinic)"
    by (simp add: plan_def v_daily_units_def units_per_day_def coalesce_def clinic_def)
  have enough: "60 \<le> available iso_date ''2024-01-05'' ''A'' clinic"
    by (simp add: run_defs store_defs clinic_def)
  from fefo_consumes_need_in_order[OF pk pkd fk fkd guard item enough]
  obtain db' where run: "main iso_date False ''2024-01-05'' clinic = (Committed, db')"
    and total: "consumed (appended clinic db') ''A'' = 60"
    and left: "drawn (eligible iso_date ''2024-01-05'' ''A'') clinic db' = 60"
    and order: "\<And>i j. i < length (batches clinic) \<Longrightarrow> j < length (batches clinic) \<Longrightarrow>
                 eligible iso_date ''2024-01-05'' ''A'' (batches clinic ! i) \<Longrightarrow>
                 eligible iso_date ''2024-01-05'' ''A'' (batches clinic ! j) \<Longrightarrow>
                 fefo_before iso_date (batches clinic ! i) (batches clinic ! j) \<Longrightarrow>
                 stock_units (batches db' ! j) < stock_units (batches clinic ! j) \<Longrightarrow>
                 stock_units (batches db' ! i) = 0"
    by blast
  have "main iso_date False ''2024-01-05'' clinic
        = (Committed, snd (main iso_date False ''2024-01-05'' clinic))"
    by (simp add: run_defs clinic_def)
  with run have db': "db' = snd (main iso_date False ''2024-01-05'' clinic)" by simp
  have second: "stock_units (batches db' ! 1) = 20"
    unfolding db' by (simp add: run_defs clinic_def)
  have "stock_units (batches db' ! 0) = 0"
  proof (rule order[of 0 1])
    show "0 < length (batches clinic)" "1 < length (batches clinic)"
      by (simp_all add: clinic_def)
    show "eligible iso_date ''2024-01-05'' ''A'' (batches clinic ! 0)"
      "eligible iso_date ''2024-01-05'' ''A'' (batches clinic ! 1)"
      by (simp_all add: run_defs clinic_def)
    show "fefo_before iso_date (batches clinic ! 0) (batches clinic ! 1)"
      by (simp add: fefo_before_def run_defs clinic_def)
    show "stock_units (batches db' ! 1) < stock_units (batches clinic ! 1)"
      unfolding second by (simp add: clinic_def)
  qed
  with pk pkd fk fkd guard item enough run total left second show ?thesis by blast
qed

theorem shortfall_logged_once_witness:
  "pk_batches clinic_dosed \<and> pk_daily_dosage clinic_dosed
   \<and> fk_batches clinic_dosed \<and> fk_daily_dosage clinic_dosed
   \<and> \<not> (already_ran_for iso_date clinic_dosed ''2024-01-15'' \<and> \<not> False)
   \<and> (''A'', 60) \<in> set (plan clinic_dosed)
   \<and> 1 / 1000000 < 60 - available iso_date ''2024-01-15'' ''A'' clinic_dosed
   \<and> available iso_date ''2024-01-15'' ''A'' clinic_dosed = 30
   \<and> (\<exists>db'. main iso_date False ''2024-01-15'' clinic_dosed = (Committed, db')
         \<and> filter (\<lambda>m. reason m = ''shortfall'' \<and> sm_medicine_id m = ''A'') (appended clinic_dosed db')
           = [\<lparr>ts = ''2024-01-15 20:00:00'', sm_medicine_id = ''A'', sm_batch_id = None,
               qty_change = 0, reason = ''shortfall'',
               sm_note = Some (Needed 30 ''2024-01-15'')\<rparr>]
         \<and> consumed (appended clinic_dosed db') ''B'' = 2)"
proof -
  have pk: "pk_batches clinic_dosed" and pkd: "pk_daily_dosage clinic_dosed"
    and fk: "fk_batches clinic_dosed" and fkd: "fk_daily_dosage clinic_dosed"
    by (simp_all add: store_defs clinic_dosed_def clinic_def)
  have guard: "\<not> (already_ran_for iso_date clinic_dosed ''2024-01-15'' \<and> \<not> False)"
    by (simp add: already_ran_for_def clinic_dosed_def clinic_def)
  have item: "(''A'', 60) \<in> set (plan clinic_dosed)" and other: "(''B'', 2) \<in> set (plan clinic_dosed)"
    by (simp_all add: plan_def v_daily_units_def units_per_day_def coalesce_def
        clinic_dosed_def clinic_def)
  have avail: "available iso_date ''2024-01-15'' ''A'' clinic_dosed = 30"
    and avail_b: "available iso_date ''2024-01-15'' ''B'' clinic_dosed = 5"
    by (simp_all add: run_defs store_defs clinic_dosed_def clinic_def)
  have short: "1 / 1000000 < 60 - available iso_date ''2024-01-15'' ''A'' clinic_dosed"
    unfolding avail by simp
  from shortfall_logged_once[OF pk pkd fk fkd guard item short]
  obtain db' where run: "main iso_date False ''2024-01-15'' clinic_dosed = (Committed, db')"
    and logged: "filter (\<lambda>m. reason m = ''shortfall'' \<and> sm_medicine_id m = ''A'')
                   (appended clinic_dosed db')
           = [\<lparr>ts = ''2024-01-15'' @ '' 20:00:00'', sm_medicine_id = ''A'', sm_batch_id = None,
               qty_change = 0, reason = ''shortfall'',
               sm_note = Some (Needed (60 - available iso_date ''2024-01-15'' ''A'' clinic_dosed)
                                 ''2024-01-15'')\<rparr>]"
    and served: "\<forall>(m, n) \<in> set (plan clinic_dosed).
                 consumed (appended clinic_dosed db') m = min n (available iso_date ''2024-01-15'' m clinic_dosed)
                 \<and> drawn (eligible iso_date ''2024-01-15'' m) clinic_dosed db'
                   = min n (available iso_date ''2024-01-15'' m clinic_dosed)"
    by blast
  from logged have logged': "filter (\<lambda>m. reason m = ''shortfall'' \<and> sm_medicine_id m = ''A'')
                   (appended clinic_dosed db')
           = [\<lparr>ts = ''2024-01-15 20:00:00'', sm_medicine_id = ''A'', sm_batch_id = None,
               qty_change = 0, reason = ''shortfall'',
               sm_note = Some (Needed 30 ''2024-01-15'')\<rparr>]"
    by (simp add: avail)
  from served other have "consumed (appended clinic_dosed db') ''B'' = 2"
    by (auto simp: avail_b)
  with pk pkd fk fkd guard item short avail run logged' show ?thesis by blast
qed

section \<open>Reconciliation\<close>

lemma delta_sum_append: "delta_sum (xs @ ys) i = delta_sum xs i + delta_sum ys i"
  by (simp add: delta_sum_def)

lemma delta_sum_doses: "delta_sum (map (dose_move run_date m) tk) i = - taken_of tk i"
proof (induction tk)
  case Nil
  show ?case by (simp add: delta_sum_def)
next
  case (Cons x tk)
  obtain b t where x: "x = (b, t)" by (cases x)
  have "delta_sum (map (dose_move run_date m) (x # tk)) i
        = delta_sum [dose_move run_date m (b, t)] i + delta_sum (map (dose_move run_date m) tk) i"
    by (simp add: x delta_sum_def)
  also have "delta_sum [dose_move run_date m (b, t)] i = - (if i = b then t else 0)"
    by (auto simp: delta_sum_def dose_move_def)
  finally show ?case by (simp add: Cons.IH x taken_of_Cons)
qed

lemma delta_sum_item:
  "delta_sum (item_moves date run_date m n db) i
   = - taken_of (takes (candidates date run_date m db) n) i"
  by (simp add: item_moves_def Let_def delta_sum_append delta_sum_doses)
     (simp add: delta_sum_def shortfall_move_def)

lemma delta_sum_plan:
  "delta_sum (plan_moves date run_date db items) i = - plan_taken date run_date db items i"
proof (induction items)
  case Nil
  show ?case by (simp add: plan_moves_def plan_taken_def delta_sum_def)
next
  case (Cons item items)
  obtain m n where item: "item = (m, n)" by (cases item)
  from Cons show ?case
    by (simp add: item plan_moves_Cons plan_taken_Cons delta_sum_append delta_sum_item)
qed

lemma delta_sum_expired:
  assumes "pk_batches db" and "b \<in> set (batches db)"
  shows "delta_sum (map (expired_move run_date) (to_scrap date run_date db)) (batch_id b)
         = (if 0 < stock_units b \<and> expiry_date b \<noteq> None \<and> sql_lt (expiry date b) (date run_date)
            then - stock_units b else 0)"
  unfolding delta_sum_def expired_logged_batch[OF assms]
  by (simp add: expired_move_def)

lemma takes_positive: "(b, t) \<in> set (takes rows remaining) \<Longrightarrow> 0 < t"
proof (induction rows arbitrary: remaining)
  case Nil
  then show ?case by simp
next
  case (Cons row rows)
  obtain bid stock where row: "row = (bid, stock)" by (cases row)
  show ?case
  proof (cases "remaining \<le> 0")
    case True
    with Cons.prems show ?thesis by (simp add: takes_break)
  next
    case pos: False
    show ?thesis
    proof (cases "min stock remaining \<le> 0")
      case True
      from Cons.prems show ?thesis
        unfolding row takes_continue[OF pos True] by (rule Cons.IH)
    next
      case False
      from Cons.prems False show ?thesis
        unfolding row takes_take[OF pos False] by (auto dest: Cons.IH)
    qed
  qed
qed

lemma item_moves_delta:
  assumes "m \<in> set (item_moves date run_date med_id need db)" and "reason m \<noteq> ''shortfall''"
  shows "sm_batch_id m \<noteq> None \<and> qty_change m < 0"
proof -
  from assms obtain b t where "(b, t) \<in> set (takes (candidates date run_date med_id db) need)"
    and "m = dose_move run_date med_id (b, t)"
    by (auto simp: item_moves_def Let_def shortfall_move_def split: if_splits)
  with takes_positive[of b t] show ?thesis by (simp add: dose_move_def)
qed

lemma plan_moves_shape:
  assumes "m \<in> set (plan_moves date run_date db items)"
  shows "\<exists>med_id need. (med_id, need) \<in> set items
           \<and> m \<in> set (item_moves date run_date med_id need db)"
  using assms by (auto simp: plan_moves_def)

text \<open>What the plan takes from a batch never exceeds what reclamation has left in it.\<close>

lemma plan_taken_bounds:
  assumes "pk_batches db" and "pk_daily_dosage db" and "check_stock db"
    and "i < length (batches db)"
  shows "plan_taken date run_date db (plan db) (batch_id (batches db ! i))
         \<le> stock_units (batches (scrapped date run_date db) ! i)"
proof -
  let ?b = "batches db ! i"
  let ?s = "scrapped date run_date db"
  have mem: "?b \<in> set (batches db)" using assms(4) by simp
  have nonneg: "0 \<le> stock_units (batches ?s ! i)"
    using scrapped_nth[OF assms(1,4), of date run_date] assms(3) mem
    by (auto simp: check_stock_def list_all_iff)
  show ?thesis
  proof (cases "\<exists>n. (medicine_id ?b, n) \<in> set (plan db)
                    \<and> eligible date run_date (medicine_id ?b) ?b")
    case True
    then obtain n where n: "(medicine_id ?b, n) \<in> set (plan db)"
      and e: "eligible date run_date (medicine_id ?b) ?b" by blast
    have row: "(batch_id ?b, stock_units ?b) \<in> set (candidates date run_date (medicine_id ?b) db)"
      using mem e by (force simp: candidates_def fefo_batches_def)
    from e have "0 \<le> stock_units ?b" by (simp add: eligible_def)
    from taken_of_takes_bounds[OF candidates_rows(1)[OF assms(1)] row this, of n]
    have "taken_of (takes (candidates date run_date (medicine_id ?b) db) n) (batch_id ?b)
          \<le> stock_units ?b" by simp
    with plan_taken_eligible[OF assms(1) mem distinct_plan[OF assms(2)] n refl, of date run_date]
      scrapped_nth_eligible[OF assms(1,4) e]
    show ?thesis by simp
  next
    case False
    then have "\<forall>(m, n) \<in> set (plan db). \<not> eligible date run_date m ?b"
      by (auto simp: eligible_def)
    from plan_taken_none[OF assms(1) mem this] nonneg show ?thesis by simp
  qed
qed

text \<open>
  C5. Every run keeps the store reconciled: the batches stay the same rows, no stock goes
  below zero, and the stock of every batch after the run is its stock before plus the
  deltas of the movements the run appended for it, so a batch that agreed with its
  movement history before the run agrees with it after. The run only appends to the log;
  a shortfall movement has delta 0 and no batch, every other movement it appends refers
  to a batch and has a negative delta.
\<close>

theorem run_reconciles:
  assumes "pk_batches db" and "pk_daily_dosage db" and "check_stock db"
    and "main date force run_date db = (r, db')"
  shows "length (batches db') = length (batches db)
         \<and> stock_moves db' = stock_moves db @ appended db db'
         \<and> (\<forall>i < length (batches db).
               batch_id (batches db' ! i) = batch_id (batches db ! i)
               \<and> 0 \<le> stock_units (batches db' ! i)
               \<and> stock_units (batches db' ! i)
                 = stock_units (batches db ! i)
                   + delta_sum (appended db db') (batch_id (batches db ! i))
               \<and> (\<forall>original.
                     stock_units (batches db ! i)
                       = original + delta_sum (stock_moves db) (batch_id (batches db ! i))
                     \<longrightarrow> stock_units (batches db' ! i)
                       = original + delta_sum (stock_moves db') (batch_id (batches db ! i))))
         \<and> (\<forall>m \<in> set (appended db db').
               (reason m = ''shortfall'' \<longrightarrow> qty_change m = 0 \<and> sm_batch_id m = None)
               \<and> (reason m \<noteq> ''shortfall'' \<longrightarrow> sm_batch_id m \<noteq> None \<and> qty_change m < 0))"
proof -
  note log = main_appends(1)[OF assms(4)]
  have core: "length (batches db') = length (batches db)
         \<and> (\<forall>i < length (batches db).
               batch_id (batches db' ! i) = batch_id (batches db ! i)
               \<and> 0 \<le> stock_units (batches db' ! i)
               \<and> stock_units (batches db' ! i)
                 = stock_units (batches db ! i)
                   + delta_sum (appended db db') (batch_id (batches db ! i)))
         \<and> (\<forall>m \<in> set (appended db db').
               (reason m = ''shortfall'' \<longrightarrow> qty_change m = 0 \<and> sm_batch_id m = None)
               \<and> (reason m \<noteq> ''shortfall'' \<longrightarrow> sm_batch_id m \<noteq> None \<and> qty_change m < 0))"
  proof (cases "r = Committed")
    case False
    with assms(4) have "db' = db" by (rule main_not_Committed)
    with assms(3) show ?thesis
      by (auto simp: delta_sum_def check_stock_def list_all_iff)
  next
    case True
    note run = assms(4)[unfolded True]
    let ?s = "scrapped date run_date db"
    let ?T = "plan_taken date run_date db (plan db)"
    note after = main_closed(1)[OF assms(1,2) run]
    note new = main_closed(2)[OF assms(1,2) run]
    have len: "length (batches db') = length (batches db)"
      by (simp add: after)
    have each: "batch_id (batches db' ! i) = batch_id (batches db ! i)
               \<and> 0 \<le> stock_units (batches db' ! i)
               \<and> stock_units (batches db' ! i)
                 = stock_units (batches db ! i)
                   + delta_sum (appended db db') (batch_id (batches db ! i))"
      if i: "i < length (batches db)" for i
    proof -
      let ?b = "batches db ! i"
      have mem: "?b \<in> set (batches db)" using i by simp
      have id: "batch_id (batches ?s ! i) = batch_id ?b"
        using medicine_id_scrapped[OF i, of date run_date] by simp
      have nth: "batches db' ! i
                 = (batches ?s ! i)\<lparr>stock_units := stock_units (batches ?s ! i) - ?T (batch_id ?b)\<rparr>"
        unfolding after using i by (simp add: adjust_nth id)
      have delta: "delta_sum (appended db db') (batch_id ?b)
                   = (stock_units (batches ?s ! i) - stock_units ?b) - ?T (batch_id ?b)"
        unfolding new delta_sum_append delta_sum_plan delta_sum_expired[OF assms(1) mem]
          scrapped_nth[OF assms(1) i]
        by simp
      from plan_taken_bounds[OF assms(1,2,3) i, of date run_date]
      show ?thesis by (simp add: nth id delta)
    qed
    have shape: "(reason m = ''shortfall'' \<longrightarrow> qty_change m = 0 \<and> sm_batch_id m = None)
               \<and> (reason m \<noteq> ''shortfall'' \<longrightarrow> sm_batch_id m \<noteq> None \<and> qty_change m < 0)"
      if "m \<in> set (appended db db')" for m
    proof (cases "m \<in> set (map (expired_move run_date) (to_scrap date run_date db))")
      case True
      then show ?thesis
        by (auto simp: expired_move_def dest: to_scrap_rows)
    next
      case False
      with that have "m \<in> set (plan_moves date run_date db (plan db))"
        by (simp add: new)
      from plan_moves_shape[OF this] obtain med_id need where
        "m \<in> set (item_moves date run_date med_id need db)" by blast
      with item_moves_shape(4)[OF this] item_moves_delta[OF this] show ?thesis by blast
    qed
    from len each shape show ?thesis by blast
  qed
  have kept: "stock_units (batches db' ! i)
                = original + delta_sum (stock_moves db') (batch_id (batches db ! i))"
    if "i < length (batches db)"
      and "stock_units (batches db ! i)
             = original + delta_sum (stock_moves db) (batch_id (batches db ! i))"
    for i original
  proof -
    from core that(1) have "stock_units (batches db' ! i)
                 = stock_units (batches db ! i)
                   + delta_sum (appended db db') (batch_id (batches db ! i))" by blast
    with that(2) show ?thesis
      by (subst log) (simp add: delta_sum_append)
  qed
  from core log kept show ?thesis by blast
qed


theorem run_reconciles_witness:
  "pk_batches clinic \<and> pk_daily_dosage clinic \<and> check_stock clinic
   \<and> main iso_date False ''2024-01-15'' clinic
       = (Committed, snd (main iso_date False ''2024-01-15'' clinic))
   \<and> length (batches (snd (main iso_date False ''2024-01-15'' clinic))) = 4
   \<and> stock_units (batches clinic ! 1) = 30
   \<and> delta_sum (appended clinic (snd (main iso_date False ''2024-01-15'' clinic))) 2 = - 30
   \<and> stock_units (batches (snd (main iso_date False ''2024-01-15'' clinic)) ! 1) = 0"
proof -
  let ?db' = "snd (main iso_date False ''2024-01-15'' clinic)"
  have pk: "pk_batches clinic" and pkd: "pk_daily_dosage clinic" and chk: "check_stock clinic"
    by (simp_all add: store_defs clinic_def)
  have run: "main iso_date False ''2024-01-15'' clinic = (Committed, ?db')"
    by (simp add: run_defs clinic_def)
  have before: "stock_units (batches clinic ! 1) = 30" "batch_id (batches clinic ! 1) = 2"
    "length (batches clinic) = 4"
    by (simp_all add: clinic_def)
  have delta: "delta_sum (appended clinic ?db') 2 = - 30"
    by (simp add: run_defs clinic_def appended_def delta_sum_def)
  from run_reconciles[OF pk pkd chk run]
  have len: "length (batches ?db') = length (batches clinic)"
    and each: "\<forall>i < length (batches clinic).
               batch_id (batches ?db' ! i) = batch_id (batches clinic ! i)
               \<and> 0 \<le> stock_units (batches ?db' ! i)
               \<and> stock_units (batches ?db' ! i)
                 = stock_units (batches clinic ! i)
                   + delta_sum (appended clinic ?db') (batch_id (batches clinic ! i))
               \<and> (\<forall>original.
                     stock_units (batches clinic ! i)
                       = original + delta_sum (stock_moves clinic) (batch_id (batches clinic ! i))
                     \<longrightarrow> stock_units (batches ?db' ! i)
                       = original + delta_sum (stock_moves ?db') (batch_id (batches clinic ! i)))"
    by blast+
  from each before(3) have eq: "stock_units (batches ?db' ! 1)
                 = stock_units (batches clinic ! 1)
                   + delta_sum (appended clinic ?db') (batch_id (batches clinic ! 1))"
    by simp
  have after: "stock_units (batches ?db' ! 1) = 0"
    unfolding eq before delta by simp
  from len before have len': "length (batches ?db') = 4" by simp
  from pk pkd chk run len' before(1) delta after show ?thesis by blast
qed

section \<open>Items without a daily need\<close>

lemma plan_undosed:
  assumes "list_all (\<lambda>d. dd_medicine_id d = med_id \<longrightarrow> units_per_day d \<le> 0) (daily_dosage db)"
  shows "\<forall>(m, n) \<in> set (plan db). m \<noteq> med_id"
  using assms by (auto simp: plan_def v_daily_units_def list_all_iff)

text \<open>The outer loop leaves alone an item that none of its turns is for.\<close>

lemma deduct_plan_frame:
  assumes "pk_batches x0" and "\<forall>(m, n) \<in> set items. m \<noteq> med_id"
    and "deduct_plan date run_date items x0 = Inr x'"
  shows "length (batches x') = length (batches x0)"
    and "\<forall>i < length (batches x0). medicine_id (batches x0 ! i) = med_id \<longrightarrow>
           batches x' ! i = batches x0 ! i"
    and "stock_moves x' = stock_moves x0 @ appended x0 x'"
    and "\<forall>m \<in> set (appended x0 x'). sm_medicine_id m \<noteq> med_id"
proof -
  let ?Q = "\<lambda>x. pk_batches x \<and> length (batches x) = length (batches x0)
               \<and> (\<forall>i < length (batches x0). medicine_id (batches x0 ! i) = med_id \<longrightarrow>
                     batches x ! i = batches x0 ! i)
               \<and> (\<exists>new. stock_moves x = stock_moves x0 @ new
                      \<and> (\<forall>m \<in> set new. sm_medicine_id m \<noteq> med_id))"
  have start: "?Q x0" using assms(1) by simp
  have step: "?Q (item_result date run_date m n x)"
    if item: "(m, n) \<in> set items" and x: "?Q x" for m n x
  proof -
    from item assms(2) have ne: "m \<noteq> med_id" by auto
    from x obtain new where pk: "pk_batches x" and len: "length (batches x) = length (batches x0)"
      and same: "\<forall>i < length (batches x0). medicine_id (batches x0 ! i) = med_id \<longrightarrow>
                     batches x ! i = batches x0 ! i"
      and new: "stock_moves x = stock_moves x0 @ new" "\<forall>m \<in> set new. sm_medicine_id m \<noteq> med_id"
      by blast
    have pk': "pk_batches (item_result date run_date m n x)" using pk by simp
    have len': "length (batches (item_result date run_date m n x)) = length (batches x0)"
      using len by (simp add: item_result_def)
    have "batches (item_result date run_date m n x) ! i = batches x0 ! i"
      if i: "i < length (batches x0)" and med: "medicine_id (batches x0 ! i) = med_id" for i
    proof -
      from same i med have here: "batches x ! i = batches x0 ! i" by blast
      from i len have i': "i < length (batches x)" by simp
      then have mem: "batches x ! i \<in> set (batches x)" by simp
      have "\<not> eligible date run_date m (batches x ! i)"
        using ne med by (simp add: here eligible_def)
      from taken_ineligible[OF pk mem this, of n] i' show ?thesis
        by (simp add: item_result_def adjust_nth here)
    qed
    moreover have "stock_moves (item_result date run_date m n x)
                   = stock_moves x0 @ (new @ item_moves date run_date m n x)"
      by (simp add: item_result_def new(1))
    moreover have "\<forall>k \<in> set (new @ item_moves date run_date m n x). sm_medicine_id k \<noteq> med_id"
      using new(2) ne by (auto dest: item_moves_shape(2))
    ultimately show ?thesis using pk' len' by blast
  qed
  have "?Q x'"
    using assms(3) start by (rule deduct_plan_invariant) (rule step)
  then obtain new where len: "length (batches x') = length (batches x0)"
    and same: "\<forall>i < length (batches x0). medicine_id (batches x0 ! i) = med_id \<longrightarrow>
                     batches x' ! i = batches x0 ! i"
    and new: "stock_moves x' = stock_moves x0 @ new" "\<forall>m \<in> set new. sm_medicine_id m \<noteq> med_id"
    by blast
  from len show "length (batches x') = length (batches x0)" .
  from same show "\<forall>i < length (batches x0). medicine_id (batches x0 ! i) = med_id \<longrightarrow>
           batches x' ! i = batches x0 ! i" .
  from appended_append[OF new(1)] new
  show "stock_moves x' = stock_moves x0 @ appended x0 x'"
    and "\<forall>m \<in> set (appended x0 x'). sm_medicine_id m \<noteq> med_id"
    by simp_all
qed


lemma pk_scrapped [simp]: "pk_batches (scrapped date run_date db) = pk_batches db"
  by (simp add: pk_batches_def scrapped_def comp_def if_distrib cong: if_cong)

text \<open>
  C9, as the code has it. An item without a positive \<open>units_per_day\<close> is left out of
  allocation: \<open>fefo_deduct\<close> changes none of its batches and appends no movement for it.
  The run as a whole still reclaims: a batch of the item is either left as it is or,
  holding stock with an expiry date before the run date, set to zero, and every movement
  the run appends for the item is an \<open>expired\<close> one.
\<close>

theorem undosed_item_only_reclaimed:
  assumes "pk_batches db"
    and "list_all (\<lambda>d. dd_medicine_id d = med_id \<longrightarrow> units_per_day d \<le> 0) (daily_dosage db)"
  shows "(\<forall>db'. fefo_deduct date run_date db = Inr db' \<longrightarrow>
            filter (\<lambda>m. sm_medicine_id m = med_id) (appended db db') = []
            \<and> (\<forall>i < length (batches db). medicine_id (batches db ! i) = med_id \<longrightarrow>
                  batches db' ! i = batches db ! i))
         \<and> (\<forall>r db'. main date force run_date db = (r, db') \<longrightarrow>
              (\<forall>m \<in> set (appended db db'). sm_medicine_id m = med_id \<longrightarrow> reason m = ''expired'')
              \<and> (\<forall>i < length (batches db). medicine_id (batches db ! i) = med_id \<longrightarrow>
                    batches db' ! i = batches db ! i
                    \<or> (0 < stock_units (batches db ! i)
                        \<and> sql_lt (expiry date (batches db ! i)) (date run_date)
                        \<and> batches db' ! i = (batches db ! i)\<lparr>stock_units := 0\<rparr>)))"
proof -
  note undosed = plan_undosed[OF assms(2)]
  have alloc: "filter (\<lambda>m. sm_medicine_id m = med_id) (appended db db') = []
            \<and> (\<forall>i < length (batches db). medicine_id (batches db ! i) = med_id \<longrightarrow>
                  batches db' ! i = batches db ! i)"
    if "fefo_deduct date run_date db = Inr db'" for db'
  proof -
    from that have "deduct_plan date run_date (plan db) db = Inr db'"
      by (simp add: fefo_deduct_plan)
    note frame = deduct_plan_frame[OF assms(1) undosed this]
    from frame(4) have "filter (\<lambda>m. sm_medicine_id m = med_id) (appended db db') = []"
      by (simp add: filter_empty_conv)
    with frame(2) show ?thesis by blast
  qed
  have whole: "(\<forall>m \<in> set (appended db db'). sm_medicine_id m = med_id \<longrightarrow> reason m = ''expired'')
              \<and> (\<forall>i < length (batches db). medicine_id (batches db ! i) = med_id \<longrightarrow>
                    batches db' ! i = batches db ! i
                    \<or> (0 < stock_units (batches db ! i)
                        \<and> sql_lt (expiry date (batches db ! i)) (date run_date)
                        \<and> batches db' ! i = (batches db ! i)\<lparr>stock_units := 0\<rparr>))"
    if run: "main date force run_date db = (r, db')" for r db'
  proof (cases "r = Committed")
    case False
    with run have "db' = db" by (rule main_not_Committed)
    then show ?thesis by simp
  next
    case True
    let ?s = "scrapped date run_date db"
    note committed = main_Committed[OF run[unfolded True]]
    have pk: "pk_batches ?s" using assms(1) by simp
    note frame = deduct_plan_frame[OF pk undosed committed(3)]
    have log: "appended db db' = map (expired_move run_date) (to_scrap date run_date db)
                                 @ appended ?s db'"
      by (rule appended_append) (simp add: frame(3) scrapped_def)
    have moves: "\<forall>m \<in> set (appended db db'). sm_medicine_id m = med_id \<longrightarrow> reason m = ''expired''"
      unfolding log using frame(4) by (auto simp: expired_move_shape)
    have each: "batches db' ! i = batches db ! i
                    \<or> (0 < stock_units (batches db ! i)
                        \<and> sql_lt (expiry date (batches db ! i)) (date run_date)
                        \<and> batches db' ! i = (batches db ! i)\<lparr>stock_units := 0\<rparr>)"
      if i: "i < length (batches db)" and med: "medicine_id (batches db ! i) = med_id" for i
    proof -
      from medicine_id_scrapped[OF i, of date run_date] med
      have "medicine_id (batches ?s ! i) = med_id" by simp
      with frame(2) i have "batches db' ! i = batches ?s ! i" by simp
      with scrapped_nth[OF assms(1) i, of date run_date] show ?thesis
        by (auto split: if_splits)
    qed
    from moves each show ?thesis by blast
  qed
  from alloc whole show ?thesis by blast
qed

theorem undosed_item_reclaimed_by_run:
  "dd_medicine_id (daily_dosage clinic_stale ! 1) = ''B''
   \<and> units_per_day (daily_dosage clinic_stale ! 1) = 0
   \<and> medicine_id (batches clinic_stale ! 4) = ''B''
   \<and> stock_units (batches clinic_stale ! 4) = 7
   \<and> fst (main iso_date False ''2024-01-05'' clinic_stale) = Committed
   \<and> stock_units (batches (snd (main iso_date False ''2024-01-05'' clinic_stale)) ! 4) = 0
   \<and> map reason (filter (\<lambda>m. sm_medicine_id m = ''B'')
                    (appended clinic_stale (snd (main iso_date False ''2024-01-05'' clinic_stale))))
     = [''expired'']"
  by (simp add: run_defs clinic_stale_def clinic_def appended_def)

theorem undosed_item_only_reclaimed_witness:
  "pk_batches clinic_stale
   \<and> fefo_deduct iso_date ''2024-01-05'' clinic_stale
       = Inr (projr (fefo_deduct iso_date ''2024-01-05'' clinic_stale))
   \<and> filter (\<lambda>m. sm_medicine_id m = ''B'')
        (appended clinic_stale (projr (fefo_deduct iso_date ''2024-01-05'' clinic_stale))) = []
   \<and> batches (projr (fefo_deduct iso_date ''2024-01-05'' clinic_stale)) ! 4
     = batches clinic_stale ! 4
   \<and> main iso_date False ''2024-01-05'' clinic_stale
       = (Committed, snd (main iso_date False ''2024-01-05'' clinic_stale))
   \<and> batches (snd (main iso_date False ''2024-01-05'' clinic_stale)) ! 2
     = batches clinic_stale ! 2"
proof -
  let ?a = "projr (fefo_deduct iso_date ''2024-01-05'' clinic_stale)"
  let ?r = "snd (main iso_date False ''2024-01-05'' clinic_stale)"
  have pk: "pk_batches clinic_stale"
    by (simp add: store_defs clinic_stale_def clinic_def)
  have undosed: "list_all (\<lambda>d. dd_medicine_id d = ''B'' \<longrightarrow> units_per_day d \<le> 0)
                   (daily_dosage clinic_stale)"
    by (simp add: units_per_day_def coalesce_def clinic_stale_def clinic_def)
  have alloc: "fefo_deduct iso_date ''2024-01-05'' clinic_stale = Inr ?a"
    by (simp add: run_defs clinic_stale_def clinic_def)
  have run: "main iso_date False ''2024-01-05'' clinic_stale = (Committed, ?r)"
    by (simp add: run_defs clinic_stale_def clinic_def)
  have b4: "(4::nat) < length (batches clinic_stale)" "medicine_id (batches clinic_stale ! 4) = ''B''"
    and b2: "(2::nat) < length (batches clinic_stale)" "medicine_id (batches clinic_stale ! 2) = ''B''"
    "\<not> 0 < stock_units (batches clinic_stale ! 2)
     \<or> \<not> sql_lt (expiry iso_date (batches clinic_stale ! 2)) (iso_date ''2024-01-05'')"
    by (simp_all add: clinic_stale_def clinic_def expiry_def sql_lt_def)
  note inst = undosed_item_only_reclaimed[OF pk undosed, of iso_date "''2024-01-05''" False]
  from inst alloc have "filter (\<lambda>m. sm_medicine_id m = ''B'') (appended clinic_stale ?a) = []"
    and "\<forall>i < length (batches clinic_stale). medicine_id (batches clinic_stale ! i) = ''B'' \<longrightarrow>
           batches ?a ! i = batches clinic_stale ! i"
    by blast+
  with b4 have part1: "filter (\<lambda>m. sm_medicine_id m = ''B'') (appended clinic_stale ?a) = []"
    "batches ?a ! 4 = batches clinic_stale ! 4" by blast+
  from inst run have "\<forall>i < length (batches clinic_stale). medicine_id (batches clinic_stale ! i) = ''B'' \<longrightarrow>
                    batches ?r ! i = batches clinic_stale ! i
                    \<or> (0 < stock_units (batches clinic_stale ! i)
                        \<and> sql_lt (expiry iso_date (batches clinic_stale ! i)) (iso_date ''2024-01-05'')
                        \<and> batches ?r ! i = (batches clinic_stale ! i)\<lparr>stock_units := 0\<rparr>)"
    by blast
  with b2 have part2: "batches ?r ! 2 = batches clinic_stale ! 2" by blast
  from pk alloc part1 run part2 show ?thesis by blast
qed

section \<open>Atomicity of the run\<close>





end
